theory Spec2Isabelle
  imports Main "HOL-Library.AList" "HOL-Library.Word"
begin

section \<open>Python values, exceptions and collaborators\<close>

text \<open>
  The client in \<^verbatim>\<open>mldata/dataset.py\<close> is dynamically typed. Values that travel through
  dictionaries and through the transport are modelled by \<open>json\<close>; a Python \<open>dict\<close> with
  string keys is an association list in insertion order, read with \<open>map_of\<close> and written
  with \<open>AList.update\<close> (replace the value in place, or append the new key at the end),
  which is what assignment to a \<open>dict\<close> does. Floating-point values are not modelled.
\<close>

type_synonym bytes = "8 word list"

datatype json =
    JNull
  | JBool bool
  | JInt int
  | JStr string
  | JArr "json list"
  | JObj "(string \<times> json) list"

text \<open>
  Exceptions are values. Every member of \<open>exn\<close> stands for an instance of a subclass of
  Python's \<open>Exception\<close>; \<open>OtherError\<close> is any exception a collaborator raises that the
  code does not name (a transport failure, an \<open>OSError\<close> other than
  \<open>FileExistsError\<close>).
\<close>

datatype exn =
    KeyError json
  | TypeError
  | IndexError
  | Exception string
  | FileExistsError
  | OtherError string

text \<open>
  A formatted request path keeps its template and its arguments apart:
  \<^verbatim>\<open>"datasets/{}/elements/{}".format(p, key)\<close> is \<open>Url ''datasets/{}/elements/{}'' [p, key]\<close>.
\<close>

datatype url = Url string "json list"

text \<open>The argument \<open>content\<close> of \<open>add_element\<close>: a \<open>str\<close> (a path) or binary data.\<close>

datatype content = StrContent string | BytesContent bytes

text \<open>
  The classes \<open>Token\<close> and \<open>Interpreter\<close> are collaborators outside this file; the code
  uses \<open>token.get_prefix()\<close> and \<open>binary_interpreter.cipher(...)\<close>.
\<close>

record token =
  get_prefix :: string

record interpreter =
  cipher :: "bytes \<Rightarrow> bytes"
  decipher :: "bytes \<Rightarrow> bytes"

text \<open>
  The attributes of a \<open>Dataset\<close> object. \<open>token\<close> and \<open>token_info\<close> are the attributes the
  base class \<open>APIWrapper\<close> keeps from the arguments of its constructor; the methods read them
  back as \<open>self.token\<close> and \<open>self.token_info\<close>.
\<close>

record dataset =
  data :: "(string \<times> json) list"
  binary_interpreter :: "interpreter option"
  elements_count :: json
  comments_count :: json
  token :: "token option"
  token_info :: json

text \<open>
  The class \<open>Element\<close> is a collaborator outside this file. Its constructor
  \<open>Element.from_dict\<close> and its accessors are parameters of the model; the accessors return
  the strings (and the list of strings) that \<open>save_to_folder\<close> formats and writes.
\<close>

record 'e element_api =
  from_dict :: "json \<Rightarrow> dataset \<Rightarrow> token option \<Rightarrow> interpreter option \<Rightarrow> json \<Rightarrow> 'e"
  get_id :: "'e \<Rightarrow> string"
  get_title :: "'e \<Rightarrow> string"
  get_description :: "'e \<Rightarrow> string"
  get_ref :: "'e \<Rightarrow> string"
  get_tags :: "'e \<Rightarrow> string list"

text \<open>One entry of the metadata index that \<open>save_to_folder\<close> builds.\<close>

record meta =
  m_id :: string
  m_title :: string
  m_description :: string
  m_http_ref :: string
  m_tags :: "string list"

text \<open>
  Every interaction with the outside (the transport of \<open>APIWrapper\<close>, the filesystem, the
  content transfer of \<open>Element\<close>) is an event that records the call and its outcome.
  \<open>Yield\<close> marks the point where the generator \<open>__iter__\<close> hands an element to its consumer.
  Console output (\<open>print\<close>) is not modelled.
\<close>

datatype 'e event =
    GetJson url "int option" "exn + json"
  | PostJson url json "exn + json"
  | PatchJson url json "exn + json"
  | DeleteJson url "exn + json"
  | PathExists string bool
  | ReadFile string "exn + bytes"
  | Mkdir string "exn + unit"
  | WriteMetadataJson string "(string \<times> meta) list" "exn + unit"
  | WriteFileText string string "exn + unit"
  | WriteFileBytes string bytes "exn + unit"
  | SetContent 'e bytes bool "exn + unit"
  | GetContent 'e bool "exn + bytes"
  | Yield 'e

text \<open>
  The outside world answers each call as a function of everything that has happened so
  far, so a remote collection that changes between calls is covered.
\<close>

record 'e world =
  on_get_json :: "'e event list \<Rightarrow> url \<Rightarrow> int option \<Rightarrow> exn + json"
  on_post_json :: "'e event list \<Rightarrow> url \<Rightarrow> json \<Rightarrow> exn + json"
  on_patch_json :: "'e event list \<Rightarrow> url \<Rightarrow> json \<Rightarrow> exn + json"
  on_delete_json :: "'e event list \<Rightarrow> url \<Rightarrow> exn + json"
  on_path_exists :: "'e event list \<Rightarrow> string \<Rightarrow> bool"
  on_read_file :: "'e event list \<Rightarrow> string \<Rightarrow> exn + bytes"
  on_mkdir :: "'e event list \<Rightarrow> string \<Rightarrow> exn + unit"
  on_write_metadata_json :: "'e event list \<Rightarrow> string \<Rightarrow> (string \<times> meta) list \<Rightarrow> exn + unit"
  on_write_file_text :: "'e event list \<Rightarrow> string \<Rightarrow> string \<Rightarrow> exn + unit"
  on_write_file_bytes :: "'e event list \<Rightarrow> string \<Rightarrow> bytes \<Rightarrow> exn + unit"
  on_set_content :: "'e event list \<Rightarrow> 'e \<Rightarrow> bytes \<Rightarrow> bool \<Rightarrow> exn + unit"
  on_get_content :: "'e event list \<Rightarrow> 'e \<Rightarrow> bool \<Rightarrow> exn + bytes"

text \<open>The state a method runs in: the object \<open>self\<close> and the events so far.\<close>

record 'e state =
  self :: dataset
  events :: "'e event list"

type_synonym ('e, 'a) prog = "'e state \<Rightarrow> (exn + 'a) \<times> 'e state"

definition ret :: "'a \<Rightarrow> ('e, 'a) prog" where
  "ret x s = (Inr x, s)"

definition raise :: "exn \<Rightarrow> ('e, 'a) prog" where
  "raise e s = (Inl e, s)"

definition lift :: "exn + 'a \<Rightarrow> ('e, 'a) prog" where
  "lift r s = (r, s)"

definition bind_p :: "('e, 'a) prog \<Rightarrow> ('a \<Rightarrow> ('e, 'b) prog) \<Rightarrow> ('e, 'b) prog" where
  "bind_p m f s = (case m s of (Inl e, s') \<Rightarrow> (Inl e, s') | (Inr x, s') \<Rightarrow> f x s')"

definition get_self :: "('e, dataset) prog" where
  "get_self s = (Inr (self s), s)"

definition set_self :: "(dataset \<Rightarrow> dataset) \<Rightarrow> ('e, unit) prog" where
  "set_self f s = (Inr (), s\<lparr>self := f (self s)\<rparr>)"

definition perform :: "('e event list \<Rightarrow> 'r) \<Rightarrow> ('r \<Rightarrow> 'e event) \<Rightarrow> 'e state \<Rightarrow> 'r \<times> 'e state" where
  "perform ask mk s = (let r = ask (events s) in (r, s\<lparr>events := events s @ [mk r]\<rparr>))"

definition get_json :: "'e world \<Rightarrow> url \<Rightarrow> int option \<Rightarrow> ('e, json) prog" where
  "get_json W u extra = perform (\<lambda>h. on_get_json W h u extra) (GetJson u extra)"

definition post_json :: "'e world \<Rightarrow> url \<Rightarrow> json \<Rightarrow> ('e, json) prog" where
  "post_json W u body = perform (\<lambda>h. on_post_json W h u body) (PostJson u body)"

definition patch_json :: "'e world \<Rightarrow> url \<Rightarrow> json \<Rightarrow> ('e, json) prog" where
  "patch_json W u body = perform (\<lambda>h. on_patch_json W h u body) (PatchJson u body)"

definition delete_json :: "'e world \<Rightarrow> url \<Rightarrow> ('e, json) prog" where
  "delete_json W u = perform (\<lambda>h. on_delete_json W h u) (DeleteJson u)"

definition path_exists :: "'e world \<Rightarrow> string \<Rightarrow> ('e, bool) prog" where
  "path_exists W p s = (case perform (\<lambda>h. on_path_exists W h p) (PathExists p) s of (b, s') \<Rightarrow> (Inr b, s'))"

definition read_file :: "'e world \<Rightarrow> string \<Rightarrow> ('e, bytes) prog" where
  "read_file W p = perform (\<lambda>h. on_read_file W h p) (ReadFile p)"

definition mkdir :: "'e world \<Rightarrow> string \<Rightarrow> ('e, unit) prog" where
  "mkdir W p = perform (\<lambda>h. on_mkdir W h p) (Mkdir p)"

definition write_metadata_json :: "'e world \<Rightarrow> string \<Rightarrow> (string \<times> meta) list \<Rightarrow> ('e, unit) prog" where
  "write_metadata_json W p m = perform (\<lambda>h. on_write_metadata_json W h p m) (WriteMetadataJson p m)"

definition write_file_text :: "'e world \<Rightarrow> string \<Rightarrow> string \<Rightarrow> ('e, unit) prog" where
  "write_file_text W p t = perform (\<lambda>h. on_write_file_text W h p t) (WriteFileText p t)"

definition write_file_bytes :: "'e world \<Rightarrow> string \<Rightarrow> bytes \<Rightarrow> ('e, unit) prog" where
  "write_file_bytes W p b = perform (\<lambda>h. on_write_file_bytes W h p b) (WriteFileBytes p b)"

definition set_content :: "'e world \<Rightarrow> 'e \<Rightarrow> bytes \<Rightarrow> bool \<Rightarrow> ('e, unit) prog" where
  "set_content W el b interpret = perform (\<lambda>h. on_set_content W h el b interpret) (SetContent el b interpret)"

definition get_content :: "'e world \<Rightarrow> 'e \<Rightarrow> bool \<Rightarrow> ('e, bytes) prog" where
  "get_content W el interpret = perform (\<lambda>h. on_get_content W h el interpret) (GetContent el interpret)"

section \<open>Python built-ins the methods use\<close>

text \<open>\<open>d[k]\<close> on a dictionary with string keys.\<close>

definition dict_get :: "(string \<times> json) list \<Rightarrow> string \<Rightarrow> exn + json" where
  "dict_get d k = (case map_of d k of None \<Rightarrow> Inl (KeyError (JStr k)) | Some v \<Rightarrow> Inr v)"

text \<open>\<open>v[k]\<close> with a string \<open>k\<close> on any value: only a dictionary accepts it.\<close>

definition subscript :: "json \<Rightarrow> string \<Rightarrow> exn + json" where
  "subscript v k = (case v of JObj d \<Rightarrow> dict_get d k | _ \<Rightarrow> Inl TypeError)"

text \<open>\<open>len(v)\<close>: lists, strings and dictionaries have a length.\<close>

definition py_len :: "json \<Rightarrow> exn + nat" where
  "py_len v = (case v of
       JArr xs \<Rightarrow> Inr (length xs)
     | JStr s \<Rightarrow> Inr (length s)
     | JObj d \<Rightarrow> Inr (length (remdups (map fst d)))
     | _ \<Rightarrow> Inl TypeError)"

text \<open>\<open>v[i]\<close> with an integer \<open>i\<close>; a negative index counts from the end.\<close>

definition list_get :: "'a list \<Rightarrow> int \<Rightarrow> exn + 'a" where
  "list_get xs i =
     (if 0 \<le> i \<and> i < int (length xs) then Inr (xs ! nat i)
      else if i < 0 \<and> - int (length xs) \<le> i then Inr (xs ! nat (int (length xs) + i))
      else Inl IndexError)"

definition py_index :: "json \<Rightarrow> int \<Rightarrow> exn + json" where
  "py_index v i = (case v of
       JArr xs \<Rightarrow> list_get xs i
     | JStr s \<Rightarrow> (case list_get s i of Inl e \<Rightarrow> Inl e | Inr c \<Rightarrow> Inr (JStr [c]))
     | JObj d \<Rightarrow> Inl (KeyError (JInt i))
     | _ \<Rightarrow> Inl TypeError)"

text \<open>\<open>sep.join(xs)\<close>.\<close>

fun join :: "string \<Rightarrow> string list \<Rightarrow> string" where
  "join sep [] = []"
| "join sep [x] = x"
| "join sep (x # y # ys) = x @ sep @ join sep (y # ys)"

text \<open>\<open>os.path.join(a, b)\<close> of \<open>posixpath\<close>, for two components.\<close>

definition path_join :: "string \<Rightarrow> string \<Rightarrow> string" where
  "path_join a b =
     (if b \<noteq> [] \<and> hd b = CHR ''/'' then b
      else if a = [] \<or> last a = CHR ''/'' then a @ b
      else a @ ''/'' @ b)"

section \<open>The class Dataset\<close>

definition Dataset_init ::
  "string \<Rightarrow> json \<Rightarrow> json \<Rightarrow> json \<Rightarrow> json \<Rightarrow> token option \<Rightarrow> interpreter option \<Rightarrow> json \<Rightarrow> dataset" where
  "Dataset_init url_prefix title description reference tags tok interp tinfo =
     (let d0 = [];
          d1 = (if CHR ''/'' \<in> set url_prefix
                then AList.update ''url_prefix'' (JStr url_prefix) d0
                else (case tok of
                        Some t \<Rightarrow> AList.update ''url_prefix'' (JStr (get_prefix t @ ''/'' @ url_prefix)) d0
                      | None \<Rightarrow> d0));
          d2 = AList.update ''title'' title d1;
          d3 = AList.update ''description'' description d2;
          d4 = AList.update ''tags'' tags d3;
          d5 = AList.update ''reference'' reference d4
      in \<lparr> data = d5, binary_interpreter = interp, elements_count = JInt 0,
           comments_count = JInt 0, token = tok, token_info = tinfo \<rparr>)"

definition set_binary_interpreter :: "interpreter option \<Rightarrow> dataset \<Rightarrow> dataset" where
  "set_binary_interpreter bi ds = ds\<lparr>binary_interpreter := bi\<rparr>"

definition get_url_prefix :: "dataset \<Rightarrow> exn + json" where
  "get_url_prefix ds = dict_get (data ds) ''url_prefix''"

definition get_ds_description :: "dataset \<Rightarrow> exn + json" where
  "get_ds_description ds = dict_get (data ds) ''description''"

definition get_ds_title :: "dataset \<Rightarrow> exn + json" where
  "get_ds_title ds = dict_get (data ds) ''title''"

definition get_ds_tags :: "dataset \<Rightarrow> exn + json" where
  "get_ds_tags ds = dict_get (data ds) ''tags''"

definition get_reference :: "dataset \<Rightarrow> exn + json" where
  "get_reference ds = dict_get (data ds) ''reference''"

definition set_description :: "json \<Rightarrow> dataset \<Rightarrow> dataset" where
  "set_description new_desc ds = ds\<lparr>data := AList.update ''description'' new_desc (data ds)\<rparr>"

definition set_title :: "json \<Rightarrow> dataset \<Rightarrow> dataset" where
  "set_title new_title ds = ds\<lparr>data := AList.update ''title'' new_title (data ds)\<rparr>"

definition set_tags :: "json \<Rightarrow> dataset \<Rightarrow> dataset" where
  "set_tags new_tags ds = ds\<lparr>data := AList.update ''tags'' new_tags (data ds)\<rparr>"

definition set_reference :: "json \<Rightarrow> dataset \<Rightarrow> dataset" where
  "set_reference new_reference ds = ds\<lparr>data := AList.update ''reference'' new_reference (data ds)\<rparr>"

text \<open>\<open>self.get_url_prefix()\<close> inside a method.\<close>

definition url_prefix_of_self :: "('e, json) prog" where
  "url_prefix_of_self s = (get_url_prefix (self s), s)"

definition update :: "'e world \<Rightarrow> ('e, unit) prog" where
  "update W =
     bind_p url_prefix_of_self (\<lambda>p.
     bind_p get_self (\<lambda>ds.
     bind_p (patch_json W (Url ''/datasets/{}'' [p])
               (JObj (filter (\<lambda>(k, v). k \<noteq> ''url_prefix'') (data ds)))) (\<lambda>_.
     ret ())))"

text \<open>
  The comprehension \<open>{k: dataset_data[k] for k in [...]}\<close>: the keys in order, stopping
  at the first one that is missing.
\<close>

fun pick_keys :: "json \<Rightarrow> string list \<Rightarrow> (string \<times> json) list \<Rightarrow> exn + (string \<times> json) list" where
  "pick_keys d [] acc = Inr acc"
| "pick_keys d (k # ks) acc =
     (case subscript d k of Inl e \<Rightarrow> Inl e | Inr v \<Rightarrow> pick_keys d ks (AList.update k v acc))"

definition refresh :: "'e world \<Rightarrow> ('e, unit) prog" where
  "refresh W =
     bind_p url_prefix_of_self (\<lambda>p.
     bind_p (get_json W (Url ''datasets/{}'' [p]) None) (\<lambda>dataset_data.
     bind_p (lift (subscript dataset_data ''elements_count'')) (\<lambda>ec.
     bind_p (set_self (\<lambda>ds. ds\<lparr>elements_count := ec\<rparr>)) (\<lambda>_.
     bind_p (lift (subscript dataset_data ''comments_count'')) (\<lambda>cc.
     bind_p (set_self (\<lambda>ds. ds\<lparr>comments_count := cc\<rparr>)) (\<lambda>_.
     bind_p (lift (pick_keys dataset_data
                [''url_prefix'', ''title'', ''description'', ''reference'', ''tags''] [])) (\<lambda>d.
     set_self (\<lambda>ds. ds\<lparr>data := d\<rparr>))))))))"

text \<open>
  \<open>__getitem__\<close>: the \<open>try\<close> block holds the formatting of the path (and so the read of
  \<open>url_prefix\<close>) and the request; \<open>except Exception\<close> catches whatever either raises.
\<close>

definition getitem :: "'e element_api \<Rightarrow> 'e world \<Rightarrow> json \<Rightarrow> ('e, 'e) prog" where
  "getitem E W key s =
     (case bind_p url_prefix_of_self
             (\<lambda>p. get_json W (Url ''datasets/{}/elements/{}'' [p, key]) None) s of
        (Inl ex, s') \<Rightarrow> (Inl (KeyError key), s')
      | (Inr result, s') \<Rightarrow>
          (Inr (from_dict E result (self s') (token (self s')) (binary_interpreter (self s'))
                  (token_info (self s'))), s'))"

definition delitem :: "'e world \<Rightarrow> json \<Rightarrow> ('e, unit) prog" where
  "delitem W key =
     bind_p url_prefix_of_self (\<lambda>p.
     bind_p (delete_json W (Url ''datasets/{}/elements/{}'' [p, key])) (\<lambda>result.
     refresh W))"

definition add_element ::
  "'e element_api \<Rightarrow> 'e world \<Rightarrow> json \<Rightarrow> json \<Rightarrow> json \<Rightarrow> json \<Rightarrow> content \<Rightarrow> bool \<Rightarrow> ('e, 'e) prog" where
  "add_element E W title description tags http_ref content0 interpret =
     bind_p (case content0 of
               StrContent path \<Rightarrow>
                 bind_p (path_exists W path) (\<lambda>ex.
                 if \<not> ex then raise (Exception ''content must be a binary data or a URI to a file.'')
                 else
                   bind_p (read_file W path) (\<lambda>content_bytes.
                   bind_p get_self (\<lambda>ds.
                   (case binary_interpreter ds of
                      None \<Rightarrow> ret content_bytes
                    | Some bi \<Rightarrow> ret (cipher bi content_bytes)))))
             | BytesContent b \<Rightarrow> ret b) (\<lambda>content1.
     bind_p url_prefix_of_self (\<lambda>p.
     bind_p (post_json W (Url ''datasets/{}/elements'' [p])
               (JObj [(''title'', title), (''description'', description),
                      (''tags'', tags), (''http_ref'', http_ref)])) (\<lambda>result.
     bind_p (refresh W) (\<lambda>_.
     bind_p (getitem E W result) (\<lambda>element.
     bind_p (set_content W element content1 interpret) (\<lambda>_.
     ret element))))))"

text \<open>
  \<open>__iter__\<close> is a generator. Its local variables are the record \<open>iter_vars\<close>; one pass
  through the body of its \<open>while\<close> loop is \<open>iter_body\<close>, which returns the variables and
  the elements it yielded (none or one). The loop itself may run forever (the remote side
  may never answer with an empty page), so \<open>iter_loop\<close> returns \<open>None\<close> when it does.
  The result of \<open>iter\<close> is what a consumer that exhausts the generator receives.
\<close>

record iter_vars =
  page :: int
  first :: json
  second :: json
  new_list_requested :: bool
  iteration :: int

definition yield :: "'e \<Rightarrow> ('e, unit) prog" where
  "yield el s = (Inr (), s\<lparr>events := events s @ [Yield el]\<rparr>)"

definition iter_body ::
  "'e element_api \<Rightarrow> 'e world \<Rightarrow> iter_vars \<Rightarrow> ('e, iter_vars \<times> 'e list) prog" where
  "iter_body E W v0 =
     (let v1 = v0\<lparr>iteration := iteration v0 + 1\<rparr> in
      bind_p (lift (py_len (first v1))) (\<lambda>n.
      bind_p (if iteration v1 > int (n div 2) \<and> \<not> new_list_requested v1
              then (let v2 = v1\<lparr>page := page v1 + 1\<rparr> in
                    bind_p url_prefix_of_self (\<lambda>p.
                    bind_p (get_json W (Url ''datasets/{}/elements'' [p]) (Some (page v2))) (\<lambda>r.
                    ret (v2\<lparr>second := r, new_list_requested := True\<rparr>))))
              else ret v1) (\<lambda>v3.
      bind_p (lift (py_len (first v3))) (\<lambda>n3.
      bind_p (ret (if iteration v3 \<ge> int n3
                   then v3\<lparr>first := second v3, second := JArr [], iteration := 0,
                           new_list_requested := False\<rparr>
                   else v3)) (\<lambda>v4.
      bind_p (lift (py_len (first v4))) (\<lambda>n4.
      if int n4 > iteration v4
      then bind_p (lift (py_index (first v4) (iteration v4))) (\<lambda>x.
           bind_p get_self (\<lambda>ds.
           (let el = from_dict E x ds (token ds) (binary_interpreter ds) (token_info ds) in
            bind_p (yield el) (\<lambda>_.
            ret (v4, [el])))))
      else ret (v4, [])))))))"

partial_function (option) iter_loop ::
  "'e element_api \<Rightarrow> 'e world \<Rightarrow> iter_vars \<Rightarrow> 'e list \<Rightarrow> 'e state \<Rightarrow> ((exn + 'e list) \<times> 'e state) option" where
  "iter_loop E W v acc s =
     (case py_len (first v) of
        Inl e \<Rightarrow> Some (Inl e, s)
      | Inr n \<Rightarrow>
          if n > 0 then
            (case iter_body E W v s of
               (Inl e, s') \<Rightarrow> Some (Inl e, s')
             | (Inr (v', out), s') \<Rightarrow> iter_loop E W v' (acc @ out) s')
          else Some (Inr acc, s))"

declare iter_loop.simps [code]

definition iter ::
  "'e element_api \<Rightarrow> 'e world \<Rightarrow> 'e state \<Rightarrow> ((exn + 'e list) \<times> 'e state) option" where
  "iter E W s =
     (case bind_p url_prefix_of_self
             (\<lambda>p. get_json W (Url ''datasets/{}/elements'' [p]) None) s of
        (Inl e, s') \<Rightarrow> Some (Inl e, s')
      | (Inr r, s') \<Rightarrow>
          iter_loop E W \<lparr>page = 0, first = r, second = JArr [], new_list_requested = False,
                         iteration = - 1\<rparr> [] s')"

text \<open>\<open>for element in v\<close> over a value: what the loop visits.\<close>

definition py_iter :: "json \<Rightarrow> exn + json list" where
  "py_iter v = (case v of
       JArr xs \<Rightarrow> Inr xs
     | JStr s \<Rightarrow> Inr (map (\<lambda>c. JStr [c]) s)
     | JObj d \<Rightarrow> Inr (map JStr (remdups (map fst d)))
     | _ \<Rightarrow> Inl TypeError)"

fun collect_ids :: "json list \<Rightarrow> exn + json list" where
  "collect_ids [] = Inr []"
| "collect_ids (element # rest) =
     (case subscript element ''_id'' of
        Inl e \<Rightarrow> Inl e
      | Inr i \<Rightarrow> (case collect_ids rest of Inl e \<Rightarrow> Inl e | Inr is \<Rightarrow> Inr (i # is)))"

definition keys ::
  "'e element_api \<Rightarrow> 'e world \<Rightarrow> int \<Rightarrow> 'e state \<Rightarrow> ((exn + json list) \<times> 'e state) option" where
  "keys E W pg s =
     (if pg = - 1 then
        (case iter E W s of
           None \<Rightarrow> None
         | Some (Inl e, s') \<Rightarrow> Some (Inl e, s')
         | Some (Inr els, s') \<Rightarrow> Some (Inr (map (\<lambda>element. JStr (get_id E element)) els), s'))
      else
        Some (bind_p url_prefix_of_self (\<lambda>p.
              bind_p (get_json W (Url ''datasets/{}/elements'' [p]) (Some pg)) (\<lambda>r.
              bind_p (lift (py_iter r)) (\<lambda>xs.
              lift (collect_ids xs)))) s))"

definition len :: "dataset \<Rightarrow> json" where
  "len ds = elements_count ds"

section \<open>Export to a folder\<close>

text \<open>
  \<open>csv.writer(f, delimiter=',', quotechar='"', quoting=csv.QUOTE_MINIMAL)\<close> on a file
  opened with \<open>newline=""\<close>: a field is quoted when it holds the delimiter, the quote
  character or a character of the line terminator \<open>\r\n\<close> (and when it is the empty only
  field of its row); inside quotes the quote character is doubled.
\<close>

definition csv_special :: "char \<Rightarrow> bool" where
  "csv_special c = (c = CHR '','' \<or> c = CHR 0x22 \<or> c = CHR 0x0D \<or> c = CHR 0x0A)"

definition csv_escape :: "string \<Rightarrow> string" where
  "csv_escape f = concat (map (\<lambda>c. if c = CHR 0x22 then [CHR 0x22, CHR 0x22] else [c]) f)"

definition csv_field :: "bool \<Rightarrow> string \<Rightarrow> string" where
  "csv_field only_field f =
     (if list_ex csv_special f \<or> (f = [] \<and> only_field)
      then [CHR 0x22] @ csv_escape f @ [CHR 0x22]
      else f)"

definition writerow :: "string list \<Rightarrow> string" where
  "writerow fs = join '','' (map (csv_field (length fs = 1)) fs) @ [CHR 0x0D, CHR 0x0A]"

definition csv_header :: "string list" where
  "csv_header = [''file_name'', ''id'', ''title'', ''description'', ''http_ref'', ''tags'']"

definition csv_record :: "string \<times> meta \<Rightarrow> string list" where
  "csv_record kv = (case kv of (k, v) \<Rightarrow>
     [k, m_id v, m_title v, m_description v, m_http_ref v, join '';'' (m_tags v)])"

fun write_records :: "(string \<times> meta) list \<Rightarrow> string" where
  "write_records [] = []"
| "write_records (kv # rest) = writerow (csv_record kv) @ write_records rest"

definition save_json :: "'e world \<Rightarrow> string \<Rightarrow> (string \<times> meta) list \<Rightarrow> ('e, unit) prog" where
  "save_json W folder metadata =
     write_metadata_json W (path_join folder ''metadata.json'') metadata"

definition save_csv :: "'e world \<Rightarrow> string \<Rightarrow> (string \<times> meta) list \<Rightarrow> ('e, unit) prog" where
  "save_csv W folder metadata =
     write_file_text W (path_join folder ''metadata.csv'')
       (writerow csv_header @ write_records metadata)"

text \<open>The first loop of \<open>save_to_folder\<close>: one index entry per element, later entries
  with the same key replacing earlier ones in place.\<close>

definition element_id :: "'e element_api \<Rightarrow> string option \<Rightarrow> 'e \<Rightarrow> string" where
  "element_id E elements_extension element =
     (case elements_extension of
        None \<Rightarrow> get_id E element
      | Some ext \<Rightarrow> get_id E element @ ''.'' @ ext)"

fun collect_metadata ::
  "'e element_api \<Rightarrow> string option \<Rightarrow> (string \<times> meta) list \<Rightarrow> 'e list \<Rightarrow> (string \<times> meta) list" where
  "collect_metadata E elements_extension metadata [] = metadata"
| "collect_metadata E elements_extension metadata (element # rest) =
     collect_metadata E elements_extension
       (AList.update (element_id E elements_extension element)
          \<lparr> m_id = get_id E element, m_title = get_title E element,
            m_description = get_description E element, m_http_ref = get_ref E element,
            m_tags = get_tags E element \<rparr> metadata) rest"

text \<open>The second loop: one keyed fetch, one content fetch and one file per index entry.\<close>

fun fetch_elements ::
  "'e element_api \<Rightarrow> 'e world \<Rightarrow> string \<Rightarrow> (string \<times> meta) list \<Rightarrow> ('e, unit) prog" where
  "fetch_elements E W content_folder [] = ret ()"
| "fetch_elements E W content_folder (kv # rest) =
     (case kv of (filename, values) \<Rightarrow>
        bind_p (getitem E W (JStr (m_id values))) (\<lambda>el.
        bind_p (get_content W el False) (\<lambda>binary_content.
        bind_p (write_file_bytes W (path_join content_folder filename) binary_content) (\<lambda>_.
        fetch_elements E W content_folder rest))))"

definition strip_dot :: "string option \<Rightarrow> string option" where
  "strip_dot elements_extension =
     (case elements_extension of
        None \<Rightarrow> None
      | Some ext \<Rightarrow> if ext \<noteq> [] \<and> hd ext = CHR ''.'' then Some (tl ext) else Some ext)"

definition save_to_folder ::
  "'e element_api \<Rightarrow> 'e world \<Rightarrow> string \<Rightarrow> string \<Rightarrow> string option \<Rightarrow> 'e state
     \<Rightarrow> ((exn + unit) \<times> 'e state) option" where
  "save_to_folder E W folder metadata_format elements_extension0 s0 =
     (let s1 = snd (mkdir W folder s0);
          elements_extension = strip_dot elements_extension0
      in if metadata_format \<noteq> ''csv'' \<and> metadata_format \<noteq> ''json''
         then Some (raise (Exception (''format '' @ metadata_format @ '' for metadata not supported.'')) s1)
         else
           (case iter E W s1 of
              None \<Rightarrow> None
            | Some (Inl e, s2) \<Rightarrow> Some (Inl e, s2)
            | Some (Inr els, s2) \<Rightarrow>
                (let metadata = collect_metadata E elements_extension [] els in
                 Some (bind_p (if metadata_format = ''csv'' then save_csv W folder metadata
                               else save_json W folder metadata) (\<lambda>_.
                       (let content_folder = path_join folder ''content'' in
                        bind_p (\<lambda>s. case mkdir W content_folder s of
                                       (Inl FileExistsError, s') \<Rightarrow> (Inr (), s')
                                     | r \<Rightarrow> r) (\<lambda>_.
                        fetch_elements E W content_folder metadata))) s2))))"

section \<open>A concrete remote side\<close>

text \<open>
  An implementation of the collaborators on which the methods can be evaluated: elements
  are their summaries, the remote collection has the pages \<open>[a, b, c]\<close>, \<open>[d]\<close> and
  \<open>[]\<close>, every request and every filesystem call succeeds.
\<close>

definition str_field :: "json \<Rightarrow> string \<Rightarrow> string" where
  "str_field v k = (case subscript v k of Inr (JStr s) \<Rightarrow> s | _ \<Rightarrow> [])"

definition strs_field :: "json \<Rightarrow> string \<Rightarrow> string list" where
  "strs_field v k =
     (case subscript v k of
        Inr (JArr xs) \<Rightarrow> map (\<lambda>x. case x of JStr s \<Rightarrow> s | _ \<Rightarrow> []) xs
      | _ \<Rightarrow> [])"

definition sample_elements :: "json element_api" where
  "sample_elements =
     \<lparr> from_dict = (\<lambda>d ds t bi ti. d),
       get_id = (\<lambda>e. str_field e ''_id''),
       get_title = (\<lambda>e. str_field e ''title''),
       get_description = (\<lambda>e. str_field e ''description''),
       get_ref = (\<lambda>e. str_field e ''http_ref''),
       get_tags = (\<lambda>e. strs_field e ''tags'') \<rparr>"

definition summary :: "string \<Rightarrow> string \<Rightarrow> json" where
  "summary i t =
     JObj [(''_id'', JStr i), (''title'', JStr t), (''description'', JStr ''about''),
           (''http_ref'', JStr ''ref''), (''tags'', JArr [JStr ''x'', JStr ''y''])]"

definition sample_record :: "string \<Rightarrow> json" where
  "sample_record p =
     JObj [(''url_prefix'', JStr p), (''title'', JStr ''remote title''),
           (''description'', JStr ''remote description''), (''reference'', JStr ''remote ref''),
           (''tags'', JArr [JStr ''t'']), (''elements_count'', JInt 4),
           (''comments_count'', JInt 7)]"

definition sample_page :: "int option \<Rightarrow> json list" where
  "sample_page extra =
     (case extra of
        None \<Rightarrow> [summary ''a'' ''one'', summary ''b'' ''x,y'', summary ''c'' ''three'']
      | Some n \<Rightarrow> if n = 1 then [summary ''d'' ''four''] else [])"

definition sample_world :: "string \<Rightarrow> json world" where
  "sample_world p =
     \<lparr> on_get_json = (\<lambda>h u extra. case u of Url t args \<Rightarrow>
          if t = ''datasets/{}'' then Inr (sample_record p)
          else if t = ''datasets/{}/elements'' then Inr (JArr (sample_page extra))
          else (case args of [q, JStr k] \<Rightarrow> Inr (summary k ''fetched'')
                | _ \<Rightarrow> Inl (OtherError ''404''))),
       on_post_json = (\<lambda>h u body. Inr (JStr ''n'')),
       on_patch_json = (\<lambda>h u body. Inr JNull),
       on_delete_json = (\<lambda>h u. Inr JNull),
       on_path_exists = (\<lambda>h path. path = ''/tmp/x.bin''),
       on_read_file = (\<lambda>h path. Inr [1, 2, 3]),
       on_mkdir = (\<lambda>h path. Inr ()),
       on_write_metadata_json = (\<lambda>h path m. Inr ()),
       on_write_file_text = (\<lambda>h path t. Inr ()),
       on_write_file_bytes = (\<lambda>h path b. Inr ()),
       on_set_content = (\<lambda>h el b interpret. Inr ()),
       on_get_content = (\<lambda>h el interpret. Inr [9]) \<rparr>"

definition add_one :: interpreter where
  "add_one = \<lparr> cipher = map (\<lambda>b. b + 1), decipher = map (\<lambda>b. b - 1) \<rparr>"

definition sample_dataset :: "interpreter option \<Rightarrow> dataset" where
  "sample_dataset bi =
     Dataset_init ''me/ds'' (JStr ''title'') (JStr ''description'') (JStr ''reference'')
       (JArr [JStr ''t'']) None bi JNull"

definition sample_state :: "interpreter option \<Rightarrow> json state" where
  "sample_state bi = \<lparr> self = sample_dataset bi, events = [] \<rparr>"

section \<open>Describing a full iteration\<close>

text \<open>
  The vocabulary in which the properties of \<open>__iter__\<close> are stated. The remote collection
  is a sequence of pages \<open>ps 0\<close>, \<open>ps 1\<close>, ...; \<open>hydrate\<close> is the call of
  \<open>Element.from_dict\<close> that \<open>__iter__\<close> and \<open>__getitem__\<close> make.
\<close>

definition hydrate :: "'e element_api \<Rightarrow> dataset \<Rightarrow> json \<Rightarrow> 'e" where
  "hydrate E ds x = from_dict E x ds (token ds) (binary_interpreter ds) (token_info ds)"

definition elements_url :: "json \<Rightarrow> url" where
  "elements_url p = Url ''datasets/{}/elements'' [p]"

definition fetch_event :: "json \<Rightarrow> (nat \<Rightarrow> json list) \<Rightarrow> nat \<Rightarrow> 'e event" where
  "fetch_event p ps k = GetJson (elements_url p) (Some (int k)) (Inr (JArr (ps k)))"

text \<open>
  The events of page \<open>k\<close> as the claim on prefetching describes them: the elements up to
  and including index \<open>len(page) // 2\<close> are handed over, then page \<open>k + 1\<close> is requested,
  then the remaining elements are handed over.
\<close>

definition prefetch_block ::
  "'e element_api \<Rightarrow> dataset \<Rightarrow> json \<Rightarrow> (nat \<Rightarrow> json list) \<Rightarrow> nat \<Rightarrow> 'e event list" where
  "prefetch_block E ds p ps k =
     (let els = map (hydrate E ds) (ps k); h = length (ps k) div 2 + 1
      in map Yield (take h els) @ [fetch_event p ps (Suc k)] @ map Yield (drop h els))"

text \<open>
  The variables of the generator at the head of its loop, when the current buffer is page
  \<open>k\<close> and \<open>iteration\<close> is \<open>i\<close>.
\<close>

definition iter_vars_at :: "(nat \<Rightarrow> json list) \<Rightarrow> nat \<Rightarrow> int \<Rightarrow> iter_vars" where
  "iter_vars_at ps k i =
     (let req = (i > int (length (ps k) div 2))
      in \<lparr> page = (if req then int k + 1 else int k), first = JArr (ps k),
           second = (if req then JArr (ps (Suc k)) else JArr []),
           new_list_requested = req, iteration = i \<rparr>)"

text \<open>
  The events of the rest of a page, read off the loop one pass at a time: \<open>c\<close> elements
  have been handed over, \<open>thr\<close> is \<open>len(page) // 2\<close> and \<open>f\<close> is the request for the next
  page.
\<close>

fun page_events :: "nat \<Rightarrow> 'e event \<Rightarrow> nat \<Rightarrow> 'e list \<Rightarrow> 'e event list" where
  "page_events thr f c [] = (if c \<le> thr + 1 then [f] else [])"
| "page_events thr f c (y # ys) =
     (if c = thr + 1 then [f] else []) @ Yield y # page_events thr f (Suc c) ys"

definition page_block ::
  "'e element_api \<Rightarrow> dataset \<Rightarrow> json \<Rightarrow> (nat \<Rightarrow> json list) \<Rightarrow> nat \<Rightarrow> 'e event list" where
  "page_block E ds p ps k =
     page_events (length (ps k) div 2) (fetch_event p ps (Suc k)) 0 (map (hydrate E ds) (ps k))"

text \<open>
  The states in which the generator started in \<open>s\<close> stands at the head of its loop: after
  the first request, and after each pass through the body that the loop condition allows.
\<close>

inductive iter_reach ::
  "'e element_api \<Rightarrow> 'e world \<Rightarrow> 'e state \<Rightarrow> iter_vars \<Rightarrow> 'e state \<Rightarrow> bool"
  for E :: "'e element_api" and W :: "'e world" and s :: "'e state" where
  start:
    "bind_p url_prefix_of_self (\<lambda>p. get_json W (Url ''datasets/{}/elements'' [p]) None) s = (Inr r, s')
     \<Longrightarrow> iter_reach E W s \<lparr>page = 0, first = r, second = JArr [], new_list_requested = False,
                             iteration = - 1\<rparr> s'"
| pass:
    "iter_reach E W s v t \<Longrightarrow> py_len (first v) = Inr n \<Longrightarrow> 0 < n
     \<Longrightarrow> iter_body E W v t = (Inr (v', out), t')
     \<Longrightarrow> iter_reach E W s v' t'"

definition sample_pages :: "nat \<Rightarrow> json list" where
  "sample_pages k = (if k = 0 then sample_page None else sample_page (Some (int k)))"

section \<open>Reading CSV back\<close>

text \<open>
  The reading side of the standard quoting rules, against which the CSV writer is
  checked: fields are separated by commas and rows by line ends; a field that begins with
  a quote character runs to the next quote character that is not doubled, and a doubled
  quote character inside it stands for one. \<open>csv_read\<close> carries the field and the row read
  so far. This reader is not part of \<^verbatim>\<open>mldata/dataset.py\<close>.
\<close>

datatype csv_state = RowStart | FieldStart | InUnquoted | InQuoted | QuoteInQuoted

fun csv_read :: "csv_state \<Rightarrow> string \<Rightarrow> string list \<Rightarrow> string \<Rightarrow> string list list" where
  "csv_read st fld row [] = (case st of RowStart \<Rightarrow> [] | _ \<Rightarrow> [row @ [fld]])"
| "csv_read st fld row (c # cs) =
     (case st of
        RowStart \<Rightarrow>
          (if c = CHR 0x22 then csv_read InQuoted [] row cs
           else if c = CHR '','' then csv_read FieldStart [] (row @ [[]]) cs
           else if c = CHR 0x0D \<or> c = CHR 0x0A then csv_read RowStart [] [] cs
           else csv_read InUnquoted [c] row cs)
      | FieldStart \<Rightarrow>
          (if c = CHR 0x22 then csv_read InQuoted [] row cs
           else if c = CHR '','' then csv_read FieldStart [] (row @ [[]]) cs
           else if c = CHR 0x0D \<or> c = CHR 0x0A then (row @ [[]]) # csv_read RowStart [] [] cs
           else csv_read InUnquoted [c] row cs)
      | InUnquoted \<Rightarrow>
          (if c = CHR '','' then csv_read FieldStart [] (row @ [fld]) cs
           else if c = CHR 0x0D \<or> c = CHR 0x0A then (row @ [fld]) # csv_read RowStart [] [] cs
           else csv_read InUnquoted (fld @ [c]) row cs)
      | InQuoted \<Rightarrow>
          (if c = CHR 0x22 then csv_read QuoteInQuoted fld row cs
           else csv_read InQuoted (fld @ [c]) row cs)
      | QuoteInQuoted \<Rightarrow>
          (if c = CHR 0x22 then csv_read InQuoted (fld @ [CHR 0x22]) row cs
           else if c = CHR '','' then csv_read FieldStart [] (row @ [fld]) cs
           else if c = CHR 0x0D \<or> c = CHR 0x0A then (row @ [fld]) # csv_read RowStart [] [] cs
           else csv_read InUnquoted (fld @ [c]) row cs))"

definition csv_parse :: "string \<Rightarrow> string list list" where
  "csv_parse text = csv_read RowStart [] [] text"

text \<open>
  The event with which \<open>save_to_folder\<close> writes the metadata index: the CSV text or the
  index itself, in the file named after the format.
\<close>

definition metadata_event ::
  "'e world \<Rightarrow> string \<Rightarrow> string \<Rightarrow> (string \<times> meta) list \<Rightarrow> 'e event list \<Rightarrow> 'e event" where
  "metadata_event W folder metadata_format index h =
     (if metadata_format = ''csv''
      then WriteFileText (path_join folder ''metadata.csv'')
             (writerow csv_header @ write_records index)
             (on_write_file_text W h (path_join folder ''metadata.csv'')
                (writerow csv_header @ write_records index))
      else WriteMetadataJson (path_join folder ''metadata.json'') index
             (on_write_metadata_json W h (path_join folder ''metadata.json'') index))"

text \<open>What an observer sees of a run: the result and the events.\<close>

definition outcome :: "((exn + 'a) \<times> 'e state) option \<Rightarrow> ((exn + 'a) \<times> 'e event list) option" where
  "outcome r = (case r of None \<Rightarrow> None | Some (x, s) \<Rightarrow> Some (x, events s))"

fun files_written :: "'e event list \<Rightarrow> string list" where
  "files_written [] = []"
| "files_written (WriteFileBytes path b r # evs) = path # files_written evs"
| "files_written (ev # evs) = files_written evs"

fun metadata_written :: "'e event list \<Rightarrow> string list" where
  "metadata_written [] = []"
| "metadata_written (WriteMetadataJson path m r # evs) = map fst m @ metadata_written evs"
| "metadata_written (ev # evs) = metadata_written evs"

definition trace_of :: "((exn + 'a) \<times> 'e state) option \<Rightarrow> 'e event list" where
  "trace_of r = (case r of None \<Rightarrow> [] | Some (x, s) \<Rightarrow> events s)"

definition unset_dataset :: dataset where
  "unset_dataset = Dataset_init ''ds'' (JStr ''title'') JNull JNull (JArr []) None None JNull"

section \<open>Properties\<close>

lemmas prog_defs = bind_p_def ret_def raise_def lift_def get_self_def set_self_def perform_def
  url_prefix_of_self_def get_json_def post_json_def patch_json_def delete_json_def path_exists_def
  read_file_def mkdir_def write_metadata_json_def write_file_text_def write_file_bytes_def
  set_content_def get_content_def yield_def

lemmas sample_defs = sample_world_def sample_state_def sample_dataset_def Dataset_init_def
  sample_elements_def sample_record_def sample_page_def summary_def str_field_def strs_field_def
  add_one_def get_url_prefix_def dict_get_def subscript_def

subsection \<open>refresh\<close>

text \<open>
  C3 (as amended). When the dataset's own record is fetched and carries the seven keys,
  \<open>refresh\<close> overwrites \<open>elements_count\<close>, \<open>comments_count\<close> and the whole \<open>data\<close>
  dictionary with the fetched values: \<open>title\<close>, \<open>description\<close>, \<open>reference\<close>, \<open>tags\<close> and
  also \<open>url_prefix\<close>, which therefore keeps its value only when the remote record carries
  the same one.
\<close>

theorem refresh_overwrites:
  assumes "get_url_prefix (self s) = Inr p"
    and "on_get_json W (events s) (Url ''datasets/{}'' [p]) None = Inr (JObj d)"
    and "map_of d ''elements_count'' = Some ec"
    and "map_of d ''comments_count'' = Some cc"
    and "map_of d ''url_prefix'' = Some up"
    and "map_of d ''title'' = Some ti"
    and "map_of d ''description'' = Some de"
    and "map_of d ''reference'' = Some re"
    and "map_of d ''tags'' = Some tg"
  shows "refresh W s =
           (Inr (),
            \<lparr> self = (self s)\<lparr> elements_count := ec, comments_count := cc,
                 data := [(''url_prefix'', up), (''title'', ti), (''description'', de),
                          (''reference'', re), (''tags'', tg)] \<rparr>,
              events = events s @ [GetJson (Url ''datasets/{}'' [p]) None (Inr (JObj d))] \<rparr>)"
  using assms
  by (simp add: refresh_def prog_defs Let_def subscript_def dict_get_def)

theorem refresh_overwrites_witness:
  "elements_count (self (snd (refresh (sample_world ''me/ds'') (sample_state None)))) = JInt 4 \<and>
   comments_count (self (snd (refresh (sample_world ''me/ds'') (sample_state None)))) = JInt 7 \<and>
   data (self (snd (refresh (sample_world ''me/ds'') (sample_state None)))) =
     [(''url_prefix'', JStr ''me/ds''), (''title'', JStr ''remote title''),
      (''description'', JStr ''remote description''), (''reference'', JStr ''remote ref''),
      (''tags'', JArr [JStr ''t''])]"
  using refresh_overwrites [of "sample_state None" "JStr ''me/ds''" "sample_world ''me/ds''"
      "[(''url_prefix'', JStr ''me/ds''), (''title'', JStr ''remote title''),
        (''description'', JStr ''remote description''), (''reference'', JStr ''remote ref''),
        (''tags'', JArr [JStr ''t'']), (''elements_count'', JInt 4), (''comments_count'', JInt 7)]"
      "JInt 4" "JInt 7" "JStr ''me/ds''" "JStr ''remote title''" "JStr ''remote description''"
      "JStr ''remote ref''" "JArr [JStr ''t'']"]
  by (simp add: sample_defs)

text \<open>
  The claim as stated fails: a remote record with another \<open>url_prefix\<close> replaces the
  local one.
\<close>

theorem refresh_replaces_url_prefix:
  "get_url_prefix (self (sample_state None)) = Inr (JStr ''me/ds'') \<and>
   get_url_prefix (self (snd (refresh (sample_world ''other/ds'') (sample_state None)))) =
     Inr (JStr ''other/ds'')"
  by (simp add: refresh_def prog_defs Let_def sample_defs)

subsection \<open>Keyed lookup\<close>



subsection \<open>add_element\<close>



text \<open>
  C4 (the code departs from the claim). With an interpreter configured and the content
  given as the path of an existing file holding the bytes 1, 2, 3, \<open>add_element\<close> hands
  the ciphered bytes 2, 3, 4 to the upload step whether \<open>interpret\<close> is false or true; in
  the second case it hands them over with the flag that asks the upload step to apply
  the interpreter.
\<close>

theorem add_element_ciphers_path_content_regardless:
  "last (events (snd (add_element sample_elements (sample_world ''me/ds'') (JStr ''t'') (JStr ''d'')
      (JArr []) (JStr ''r'') (StrContent ''/tmp/x.bin'') False (sample_state (Some add_one))))) =
     SetContent (summary ''n'' ''fetched'') [2, 3, 4] False (Inr ()) \<and>
   last (events (snd (add_element sample_elements (sample_world ''me/ds'') (JStr ''t'') (JStr ''d'')
      (JArr []) (JStr ''r'') (StrContent ''/tmp/x.bin'') True (sample_state (Some add_one))))) =
     SetContent (summary ''n'' ''fetched'') [2, 3, 4] True (Inr ()) \<and>
   last (events (snd (add_element sample_elements (sample_world ''me/ds'') (JStr ''t'') (JStr ''d'')
      (JArr []) (JStr ''r'') (BytesContent [1, 2, 3]) False (sample_state (Some add_one))))) =
     SetContent (summary ''n'' ''fetched'') [1, 2, 3] False (Inr ())"
  by (simp add: add_element_def refresh_def getitem_def prog_defs Let_def sample_defs)

subsection \<open>save_to_folder\<close>

text \<open>
  C6 (as amended). For every metadata format other than \<open>json\<close> and \<open>csv\<close>,
  \<open>save_to_folder\<close> raises after a single interaction with the outside, the attempt to
  create the target folder: no request is sent, no metadata file and no content file is
  written, and the content folder is not created.
\<close>

theorem save_to_folder_unsupported_format:
  assumes "metadata_format \<noteq> ''csv''" and "metadata_format \<noteq> ''json''"
  shows "save_to_folder E W folder metadata_format ext s =
           Some (Inl (Exception (''format '' @ metadata_format @ '' for metadata not supported.'')),
                 s\<lparr>events := events s @ [Mkdir folder (on_mkdir W (events s) folder)]\<rparr>)"
  using assms by (simp add: save_to_folder_def mkdir_def perform_def raise_def Let_def)

theorem save_to_folder_unsupported_format_witness:
  "''xml'' \<noteq> ''csv'' \<and> ''xml'' \<noteq> ''json'' \<and>
   save_to_folder sample_elements (sample_world ''me/ds'') ''out'' ''xml'' (Some ''txt'')
     \<lparr>self = sample_dataset None, events = []\<rparr> =
     Some (Inl (Exception ''format xml for metadata not supported.''),
           \<lparr>self = sample_dataset None, events = [Mkdir ''out'' (Inr ())]\<rparr>)"
  using save_to_folder_unsupported_format [of "''xml''" sample_elements "sample_world ''me/ds''"
      "''out''" "Some ''txt''" "\<lparr>self = sample_dataset None, events = []\<rparr>"]
  by (simp add: sample_world_def)

text \<open>
  The claim as stated fails: the target folder is created before the format is checked.
\<close>

theorem save_to_folder_creates_folder_first:
  "outcome (save_to_folder sample_elements (sample_world ''me/ds'') ''out'' ''xml'' None
              (sample_state None)) =
     Some (Inl (Exception ''format xml for metadata not supported.''), [Mkdir ''out'' (Inr ())])"
  by (simp add: outcome_def save_to_folder_def mkdir_def perform_def raise_def Let_def
        sample_world_def sample_state_def)

subsection \<open>A dataset without url_prefix\<close>

lemma init_no_slash:
  "CHR ''/'' \<notin> set url_prefix \<Longrightarrow>
   get_url_prefix (Dataset_init url_prefix title description reference tags None bi ti) =
     Inl (KeyError (JStr ''url_prefix''))"
  by (simp add: Dataset_init_def get_url_prefix_def dict_get_def)

lemma init_slash:
  "CHR ''/'' \<in> set url_prefix \<Longrightarrow>
   get_url_prefix (Dataset_init url_prefix title description reference tags tok bi ti) =
     Inr (JStr url_prefix)"
  by (simp add: Dataset_init_def get_url_prefix_def dict_get_def)

lemma init_token:
  "CHR ''/'' \<notin> set url_prefix \<Longrightarrow>
   get_url_prefix (Dataset_init url_prefix title description reference tags (Some t) bi ti) =
     Inr (JStr (get_prefix t @ ''/'' @ url_prefix))"
  by (simp add: Dataset_init_def get_url_prefix_def dict_get_def)

lemma iter_unset: "get_url_prefix (self s) = Inl e \<Longrightarrow> iter E W s = Some (Inl e, s)"
  by (simp add: iter_def prog_defs)

text \<open>
  C9 (as amended). A dataset constructed with a \<open>url_prefix\<close> without \<open>/\<close> and without a
  token has no \<open>url_prefix\<close> entry, and each operation raises \<open>KeyError\<close> at the point
  where it builds its path: \<open>get_url_prefix\<close>, \<open>update\<close>, \<open>__delitem__\<close>, \<open>__iter__\<close>,
  \<open>keys\<close> and \<open>refresh\<close> raise \<open>KeyError('url_prefix')\<close> before any request,
  \<open>__getitem__\<close> raises \<open>KeyError(key)\<close>, \<open>add_element\<close> raises it unless its content is
  a path that does not exist or cannot be read, and \<open>save_to_folder\<close> raises it for the
  formats \<open>csv\<close> and \<open>json\<close>, after the attempt to create the folder. With a \<open>/\<close> in
  \<open>url_prefix\<close>, or with a token, the entry is set by the constructor.
\<close>

theorem url_prefix_unset_raises:
  "(CHR ''/'' \<notin> set url_prefix \<and>
    self s = Dataset_init url_prefix title description reference tags None bi ti \<longrightarrow>
      get_url_prefix (self s) = Inl (KeyError (JStr ''url_prefix'')) \<and>
      update W s = (Inl (KeyError (JStr ''url_prefix'')), s) \<and>
      add_element E W t d tg h (BytesContent b) i s = (Inl (KeyError (JStr ''url_prefix'')), s) \<and>
      fst (add_element E W t d tg h (StrContent path) i s) =
        (if on_path_exists W (events s) path
         then (case on_read_file W (events s @ [PathExists path True]) path of
                 Inl e \<Rightarrow> Inl e
               | Inr content_bytes \<Rightarrow> Inl (KeyError (JStr ''url_prefix'')))
         else Inl (Exception ''content must be a binary data or a URI to a file.'')) \<and>
      getitem E W key s = (Inl (KeyError key), s) \<and>
      delitem W key s = (Inl (KeyError (JStr ''url_prefix'')), s) \<and>
      iter E W s = Some (Inl (KeyError (JStr ''url_prefix'')), s) \<and>
      keys E W pg s = Some (Inl (KeyError (JStr ''url_prefix'')), s) \<and>
      refresh W s = (Inl (KeyError (JStr ''url_prefix'')), s) \<and>
      save_to_folder E W folder metadata_format ext s =
        Some (if metadata_format = ''csv'' \<or> metadata_format = ''json''
              then Inl (KeyError (JStr ''url_prefix''))
              else Inl (Exception (''format '' @ metadata_format @ '' for metadata not supported.'')),
              s\<lparr>events := events s @ [Mkdir folder (on_mkdir W (events s) folder)]\<rparr>)) \<and>
   (CHR ''/'' \<in> set url_prefix \<longrightarrow>
      get_url_prefix (Dataset_init url_prefix title description reference tags tok bi ti) =
        Inr (JStr url_prefix)) \<and>
   (CHR ''/'' \<notin> set url_prefix \<longrightarrow>
      get_url_prefix (Dataset_init url_prefix title description reference tags (Some tk) bi ti) =
        Inr (JStr (get_prefix tk @ ''/'' @ url_prefix)))"
proof (intro conjI impI)
  assume a: "CHR ''/'' \<notin> set url_prefix \<and>
    self s = Dataset_init url_prefix title description reference tags None bi ti"
  then have u: "get_url_prefix (self s) = Inl (KeyError (JStr ''url_prefix''))"
    by (simp add: init_no_slash)
  show "get_url_prefix (self s) = Inl (KeyError (JStr ''url_prefix''))" by (rule u)
  show "update W s = (Inl (KeyError (JStr ''url_prefix'')), s)"
    using u by (simp add: update_def prog_defs)
  show "add_element E W t d tg h (BytesContent b) i s = (Inl (KeyError (JStr ''url_prefix'')), s)"
    using u by (simp add: add_element_def prog_defs)
  show "fst (add_element E W t d tg h (StrContent path) i s) =
        (if on_path_exists W (events s) path
         then (case on_read_file W (events s @ [PathExists path True]) path of
                 Inl e \<Rightarrow> Inl e
               | Inr content_bytes \<Rightarrow> Inl (KeyError (JStr ''url_prefix'')))
         else Inl (Exception ''content must be a binary data or a URI to a file.''))"
    using u by (simp add: add_element_def prog_defs Let_def split: sum.splits option.splits)
  show "getitem E W key s = (Inl (KeyError key), s)"
    using u by (simp add: getitem_def prog_defs)
  show "delitem W key s = (Inl (KeyError (JStr ''url_prefix'')), s)"
    using u by (simp add: delitem_def prog_defs)
  show "iter E W s = Some (Inl (KeyError (JStr ''url_prefix'')), s)"
    using u by (rule iter_unset)
  show "keys E W pg s = Some (Inl (KeyError (JStr ''url_prefix'')), s)"
    using u by (simp add: keys_def iter_unset prog_defs)
  show "refresh W s = (Inl (KeyError (JStr ''url_prefix'')), s)"
    using u by (simp add: refresh_def prog_defs)
  have "get_url_prefix (self (snd (mkdir W folder s))) = Inl (KeyError (JStr ''url_prefix''))"
    using u by (simp add: prog_defs Let_def)
  then show "save_to_folder E W folder metadata_format ext s =
        Some (if metadata_format = ''csv'' \<or> metadata_format = ''json''
              then Inl (KeyError (JStr ''url_prefix''))
              else Inl (Exception (''format '' @ metadata_format @ '' for metadata not supported.'')),
              s\<lparr>events := events s @ [Mkdir folder (on_mkdir W (events s) folder)]\<rparr>)"
    by (auto simp add: save_to_folder_def iter_unset raise_def Let_def mkdir_def perform_def)
next
  assume "CHR ''/'' \<in> set url_prefix"
  then show "get_url_prefix (Dataset_init url_prefix title description reference tags tok bi ti) =
        Inr (JStr url_prefix)" by (rule init_slash)
next
  assume "CHR ''/'' \<notin> set url_prefix"
  then show "get_url_prefix (Dataset_init url_prefix title description reference tags (Some tk) bi ti) =
        Inr (JStr (get_prefix tk @ ''/'' @ url_prefix))" by (rule init_token)
qed

theorem url_prefix_unset_raises_witness:
  "CHR ''/'' \<notin> set ''ds'' \<and>
   refresh (sample_world ''x'') \<lparr>self = unset_dataset, events = []\<rparr> =
     (Inl (KeyError (JStr ''url_prefix'')), \<lparr>self = unset_dataset, events = []\<rparr>) \<and>
   iter sample_elements (sample_world ''x'') \<lparr>self = unset_dataset, events = []\<rparr> =
     Some (Inl (KeyError (JStr ''url_prefix'')), \<lparr>self = unset_dataset, events = []\<rparr>) \<and>
   getitem sample_elements (sample_world ''x'') (JStr ''a'') \<lparr>self = unset_dataset, events = []\<rparr> =
     (Inl (KeyError (JStr ''a'')), \<lparr>self = unset_dataset, events = []\<rparr>) \<and>
   CHR ''/'' \<in> set ''me/ds'' \<and>
   get_url_prefix (Dataset_init ''me/ds'' (JStr ''title'') JNull JNull (JArr []) None None JNull) =
     Inr (JStr ''me/ds'') \<and>
   get_url_prefix (Dataset_init ''ds'' (JStr ''title'') JNull JNull (JArr [])
                     (Some \<lparr>get_prefix = ''me''\<rparr>) None JNull) = Inr (JStr ''me/ds'')"
  using url_prefix_unset_raises [where url_prefix = "''ds''"
      and s = "\<lparr>self = unset_dataset, events = []\<rparr>" and title = "JStr ''title''"
      and description = JNull and reference = JNull and tags = "JArr []" and bi = None
      and ti = JNull and W = "sample_world ''x''" and E = sample_elements and key = "JStr ''a''"
      and tk = "\<lparr>get_prefix = ''me''\<rparr>"]
    url_prefix_unset_raises [where url_prefix = "''me/ds''" and title = "JStr ''title''"
      and description = JNull and reference = JNull and tags = "JArr []" and bi = None
      and ti = JNull and tok = None]
  by (simp add: unset_dataset_def)

text \<open>
  The claim as stated fails: on such a dataset \<open>add_element\<close> with the path of a file that
  does not exist raises the invalid-content \<open>Exception\<close>, not \<open>KeyError\<close>.
\<close>

theorem add_element_missing_file_not_KeyError:
  "add_element sample_elements (sample_world ''x'') (JStr ''t'') (JStr ''d'') (JArr []) (JStr ''r'')
     (StrContent ''/nonexistent'') True \<lparr>self = unset_dataset, events = []\<rparr> =
     (Inl (Exception ''content must be a binary data or a URI to a file.''),
      \<lparr>self = unset_dataset, events = [PathExists ''/nonexistent'' False]\<rparr>)"
  by (simp add: add_element_def prog_defs sample_world_def)

subsection \<open>Iteration\<close>

lemma body_step_yield:
  assumes up: "get_url_prefix (self t) = Inr p"
    and w: "\<And>h. on_get_json W h (elements_url p) (Some (int (Suc k))) = Inr (JArr (ps (Suc k)))"
    and pk: "ps k = done @ x # xs"
  shows "iter_body E W (iter_vars_at ps k (int (length done) - 1)) t =
           (Inr (iter_vars_at ps k (int (length done)), [hydrate E (self t) x]),
            t\<lparr>events := events t @
                 (if length done = length (ps k) div 2 + 1 then [fetch_event p ps (Suc k)] else []) @
                 [Yield (hydrate E (self t) x)]\<rparr>)"
proof -
  have e: "int k + 1 = int (Suc k)" by simp
  show ?thesis
    using up w pk
    by (auto simp add: iter_body_def iter_vars_at_def prog_defs py_len_def py_index_def list_get_def
          Let_def hydrate_def fetch_event_def elements_url_def nth_append e simp del: of_nat_Suc)
qed

lemma body_step_swap:
  assumes up: "get_url_prefix (self t) = Inr p"
    and w: "\<And>h. on_get_json W h (elements_url p) (Some (int (Suc k))) = Inr (JArr (ps (Suc k)))"
    and pk: "ps k \<noteq> []"
  shows "iter_body E W (iter_vars_at ps k (int (length (ps k)) - 1)) t =
           (Inr (iter_vars_at ps (Suc k) 0, map (hydrate E (self t)) (take 1 (ps (Suc k)))),
            t\<lparr>events := events t @
                 (if length (ps k) \<le> length (ps k) div 2 + 1 then [fetch_event p ps (Suc k)] else []) @
                 map Yield (map (hydrate E (self t)) (take 1 (ps (Suc k))))\<rparr>)"
proof -
  have e: "int k + 1 = int (Suc k)" by simp
  show ?thesis
    using up w pk
    by (cases "ps (Suc k)")
       (auto simp add: iter_body_def iter_vars_at_def prog_defs py_len_def py_index_def list_get_def
          Let_def hydrate_def fetch_event_def elements_url_def e simp del: of_nat_Suc)
qed


lemma py_len_at: "py_len (first (iter_vars_at ps k i)) = Inr (length (ps k))"
  by (simp add: iter_vars_at_def py_len_def Let_def)

lemma loop_exit:
  "ps k = [] \<Longrightarrow> iter_loop E W (iter_vars_at ps k i) acc t = Some (Inr acc, t)"
  by (subst iter_loop.simps) (simp add: py_len_at)

lemma within_page:
  assumes w: "\<And>h. on_get_json W h (elements_url p) (Some (int (Suc k))) = Inr (JArr (ps (Suc k)))"
    and ne: "ps k \<noteq> []"
  shows "ps k = done @ rest \<Longrightarrow> get_url_prefix (self t) = Inr p \<Longrightarrow>
         iter_loop E W (iter_vars_at ps k (int (length done) - 1)) acc t =
         iter_loop E W (iter_vars_at ps (Suc k) 0)
           (acc @ map (hydrate E (self t)) rest @ map (hydrate E (self t)) (take 1 (ps (Suc k))))
           (t\<lparr>events := events t @
                page_events (length (ps k) div 2) (fetch_event p ps (Suc k)) (length done)
                  (map (hydrate E (self t)) rest) @
                map Yield (map (hydrate E (self t)) (take 1 (ps (Suc k))))\<rparr>)"
proof (induction rest arbitrary: "done" acc t)
  case Nil
  then have d: "done = ps k" by simp
  have "iter_loop E W (iter_vars_at ps k (int (length (ps k)) - 1)) acc t =
        iter_loop E W (iter_vars_at ps (Suc k) 0)
          (acc @ map (hydrate E (self t)) (take 1 (ps (Suc k))))
          (t\<lparr>events := events t @
             (if length (ps k) \<le> length (ps k) div 2 + 1 then [fetch_event p ps (Suc k)] else []) @
             map Yield (map (hydrate E (self t)) (take 1 (ps (Suc k))))\<rparr>)"
    using ne
    by (subst iter_loop.simps)
       (simp add: py_len_at body_step_swap [OF Nil.prems(2) w ne])
  then show ?case by (simp add: d)
next
  case (Cons x xs)
  let ?t' = "t\<lparr>events := events t @
                 (if length done = length (ps k) div 2 + 1 then [fetch_event p ps (Suc k)] else []) @
                 [Yield (hydrate E (self t) x)]\<rparr>"
  have step: "iter_loop E W (iter_vars_at ps k (int (length done) - 1)) acc t =
        iter_loop E W (iter_vars_at ps k (int (length done))) (acc @ [hydrate E (self t) x]) ?t'"
    using ne
    by (subst iter_loop.simps)
       (simp add: py_len_at body_step_yield [OF Cons.prems(2) w Cons.prems(1)])
  have pk': "ps k = (done @ [x]) @ xs" using Cons.prems(1) by simp
  have up': "get_url_prefix (self ?t') = Inr p" using Cons.prems(2) by simp
  have "iter_loop E W (iter_vars_at ps k (int (length (done @ [x])) - 1)) (acc @ [hydrate E (self t) x]) ?t' =
        iter_loop E W (iter_vars_at ps (Suc k) 0)
           ((acc @ [hydrate E (self t) x]) @ map (hydrate E (self ?t')) xs @ map (hydrate E (self ?t')) (take 1 (ps (Suc k))))
           (?t'\<lparr>events := events ?t' @
                page_events (length (ps k) div 2) (fetch_event p ps (Suc k)) (length (done @ [x]))
                  (map (hydrate E (self ?t')) xs) @
                map Yield (map (hydrate E (self ?t')) (take 1 (ps (Suc k))))\<rparr>)"
    by (rule Cons.IH [OF pk' up'])
  with step show ?case by simp
qed


lemma page_block_nonempty:
  "ps k = x # xs \<Longrightarrow>
   page_block E ds p ps k =
     Yield (hydrate E ds x) #
       page_events (length (ps k) div 2) (fetch_event p ps (Suc k)) 1 (map (hydrate E ds) xs)"
  by (simp add: page_block_def)

lemma take1_pages:
  assumes "ps K = []" and "k \<le> K" and "\<And>j. j < K \<Longrightarrow> ps j \<noteq> []"
  shows "take 1 (ps k) @ drop 1 (concat (map ps [k..<K])) = concat (map ps [k..<K])"
proof (cases "k = K")
  case True
  then show ?thesis using assms by simp
next
  case False
  then have lt: "k < K" using assms by simp
  then obtain x xs where pk: "ps k = x # xs" using assms(3) [of k] by (cases "ps k") auto
  show ?thesis
    by (simp add: upt_conv_Cons [OF lt] pk)
qed

lemma take1_blocks:
  assumes "ps K = []" and "k \<le> K" and "\<And>j. j < K \<Longrightarrow> ps j \<noteq> []"
  shows "map Yield (map (hydrate E ds) (take 1 (ps k))) @
           drop 1 (concat (map (page_block E ds p ps) [k..<K])) =
         concat (map (page_block E ds p ps) [k..<K])"
proof (cases "k = K")
  case True
  then show ?thesis using assms by simp
next
  case False
  then have lt: "k < K" using assms by simp
  then obtain x xs where pk: "ps k = x # xs" using assms(3) [of k] by (cases "ps k") auto
  show ?thesis
    by (simp add: upt_conv_Cons [OF lt] pk page_block_nonempty [of ps k x xs, OF pk])
qed

lemma from_page:
  assumes w: "\<And>h j. 0 < j \<Longrightarrow> j \<le> K \<Longrightarrow>
               on_get_json W h (elements_url p) (Some (int j)) = Inr (JArr (ps j))"
    and last_page: "ps K = []"
    and pages: "\<And>j. j < K \<Longrightarrow> ps j \<noteq> []"
  shows "k \<le> K \<Longrightarrow> get_url_prefix (self t) = Inr p \<Longrightarrow>
         iter_loop E W (iter_vars_at ps k 0) acc t =
           Some (Inr (acc @ map (hydrate E (self t)) (drop 1 (concat (map ps [k..<K])))),
                 t\<lparr>events := events t @
                      drop 1 (concat (map (page_block E (self t) p ps) [k..<K]))\<rparr>)"
proof (induction "K - k" arbitrary: k acc t)
  case 0
  then have "k = K" by simp
  then show ?case using last_page by (simp add: loop_exit)
next
  case (Suc n)
  then have lt: "k < K" by simp
  then obtain x xs where pk: "ps k = x # xs" using pages [of k] by (cases "ps k") auto
  have ne: "ps k \<noteq> []" using pk by simp
  have w': "\<And>h. on_get_json W h (elements_url p) (Some (int (Suc k))) = Inr (JArr (ps (Suc k)))"
    using w [of "Suc k"] lt by simp
  have pk': "ps k = [x] @ xs" using pk by simp
  let ?acc' = "acc @ map (hydrate E (self t)) xs @ map (hydrate E (self t)) (take 1 (ps (Suc k)))"
  let ?t' = "t\<lparr>events := events t @
                page_events (length (ps k) div 2) (fetch_event p ps (Suc k)) (length [x])
                  (map (hydrate E (self t)) xs) @
                map Yield (map (hydrate E (self t)) (take 1 (ps (Suc k))))\<rparr>"
  have a: "iter_loop E W (iter_vars_at ps k 0) acc t = iter_loop E W (iter_vars_at ps (Suc k) 0) ?acc' ?t'"
    using within_page [OF w' ne pk' Suc.prems(2), of E acc] by simp
  have up': "get_url_prefix (self ?t') = Inr p" using Suc.prems(2) by simp
  have n: "n = K - Suc k" using Suc.hyps(2) by simp
  have le: "Suc k \<le> K" using lt by simp
  have b: "iter_loop E W (iter_vars_at ps (Suc k) 0) ?acc' ?t' =
           Some (Inr (?acc' @ map (hydrate E (self ?t')) (drop 1 (concat (map ps [Suc k..<K])))),
                 ?t'\<lparr>events := events ?t' @
                      drop 1 (concat (map (page_block E (self ?t') p ps) [Suc k..<K]))\<rparr>)"
    by (rule Suc.hyps(1) [OF n le up'])
  have els: "map (hydrate E (self t)) (take 1 (ps (Suc k))) @
               map (hydrate E (self t)) (drop 1 (concat (map ps [Suc k..<K]))) =
             map (hydrate E (self t)) (concat (map ps [Suc k..<K]))"
    using take1_pages [of ps K "Suc k", OF last_page le pages] by (metis map_append)
  have evs: "map Yield (map (hydrate E (self t)) (take 1 (ps (Suc k)))) @
               drop 1 (concat (map (page_block E (self t) p ps) [Suc k..<K])) =
             concat (map (page_block E (self t) p ps) [Suc k..<K])"
    by (rule take1_blocks [of ps K "Suc k", OF last_page le pages])
  have c: "Some (Inr (?acc' @ map (hydrate E (self ?t')) (drop 1 (concat (map ps [Suc k..<K])))),
                 ?t'\<lparr>events := events ?t' @
                      drop 1 (concat (map (page_block E (self ?t') p ps) [Suc k..<K]))\<rparr>) =
           Some (Inr (acc @ map (hydrate E (self t)) (drop 1 (concat (map ps [k..<K])))),
                 t\<lparr>events := events t @
                      drop 1 (concat (map (page_block E (self t) p ps) [k..<K]))\<rparr>)"
    using els evs
    by (simp add: upt_conv_Cons [OF lt] pk page_block_nonempty [of ps k x xs, OF pk])
  show ?case by (rule trans [OF a trans [OF b c]])
qed

lemma iter_run:
  assumes up: "get_url_prefix (self s) = Inr p"
    and w0: "\<And>h. on_get_json W h (elements_url p) None = Inr (JArr (ps 0))"
    and w: "\<And>h j. 0 < j \<Longrightarrow> j \<le> K \<Longrightarrow>
               on_get_json W h (elements_url p) (Some (int j)) = Inr (JArr (ps j))"
    and last_page: "ps K = []"
    and pages: "\<And>j. j < K \<Longrightarrow> ps j \<noteq> []"
  shows "iter E W s =
           Some (Inr (map (hydrate E (self s)) (concat (map ps [0..<K]))),
                 s\<lparr>events := events s @
                      GetJson (elements_url p) None (Inr (JArr (ps 0))) #
                      concat (map (page_block E (self s) p ps) [0..<K])\<rparr>)"
proof -
  let ?t = "s\<lparr>events := events s @ [GetJson (elements_url p) None (Inr (JArr (ps 0)))]\<rparr>"
  have start: "iter E W s = iter_loop E W (iter_vars_at ps 0 (- 1)) [] ?t"
    using up w0 by (simp add: iter_def prog_defs iter_vars_at_def Let_def elements_url_def)
  have up': "get_url_prefix (self ?t) = Inr p" using up by simp
  show ?thesis
  proof (cases "K = 0")
    case True
    then show ?thesis using last_page by (simp add: start loop_exit)
  next
    case False
    then have lt: "0 < K" by simp
    then obtain x xs where pk: "ps 0 = x # xs" using pages [of 0] by (cases "ps 0") auto
    have ne: "ps 0 \<noteq> []" using pk by simp
    have w': "\<And>h. on_get_json W h (elements_url p) (Some (int (Suc 0))) = Inr (JArr (ps (Suc 0)))"
      using w [of "Suc 0"] lt by simp
    have pk': "ps 0 = [] @ ps 0" by simp
    let ?acc' = "[] @ map (hydrate E (self ?t)) (ps 0) @ map (hydrate E (self ?t)) (take 1 (ps (Suc 0)))"
    let ?t' = "?t\<lparr>events := events ?t @
                page_events (length (ps 0) div 2) (fetch_event p ps (Suc 0)) (length ([]::json list))
                  (map (hydrate E (self ?t)) (ps 0)) @
                map Yield (map (hydrate E (self ?t)) (take 1 (ps (Suc 0))))\<rparr>"
    have a: "iter_loop E W (iter_vars_at ps 0 (- 1)) [] ?t = iter_loop E W (iter_vars_at ps (Suc 0) 0) ?acc' ?t'"
      using within_page [OF w' ne pk' up', of E "[]"] by simp
    have up'': "get_url_prefix (self ?t') = Inr p" using up by simp
    have le: "Suc 0 \<le> K" using lt by simp
    have b: "iter_loop E W (iter_vars_at ps (Suc 0) 0) ?acc' ?t' =
           Some (Inr (?acc' @ map (hydrate E (self ?t')) (drop 1 (concat (map ps [Suc 0..<K])))),
                 ?t'\<lparr>events := events ?t' @
                      drop 1 (concat (map (page_block E (self ?t') p ps) [Suc 0..<K]))\<rparr>)"
      by (rule from_page [OF w last_page pages le up''])
    have els: "map (hydrate E (self s)) (take 1 (ps (Suc 0))) @
               map (hydrate E (self s)) (drop 1 (concat (map ps [Suc 0..<K]))) =
             map (hydrate E (self s)) (concat (map ps [Suc 0..<K]))"
      using take1_pages [of ps K "Suc 0", OF last_page le pages] by (metis map_append)
    have evs: "map Yield (map (hydrate E (self s)) (take 1 (ps (Suc 0)))) @
               drop 1 (concat (map (page_block E (self s) p ps) [Suc 0..<K])) =
             concat (map (page_block E (self s) p ps) [Suc 0..<K])"
      by (rule take1_blocks [of ps K "Suc 0", OF last_page le pages])
    have c: "Some (Inr (?acc' @ map (hydrate E (self ?t')) (drop 1 (concat (map ps [Suc 0..<K])))),
                 ?t'\<lparr>events := events ?t' @
                      drop 1 (concat (map (page_block E (self ?t') p ps) [Suc 0..<K]))\<rparr>) =
           Some (Inr (map (hydrate E (self s)) (concat (map ps [0..<K]))),
                 s\<lparr>events := events s @
                      GetJson (elements_url p) None (Inr (JArr (ps 0))) #
                      concat (map (page_block E (self s) p ps) [0..<K])\<rparr>)"
      using els evs
      by (simp add: upt_conv_Cons [OF lt] page_block_def)
    show ?thesis by (rule trans [OF start trans [OF a trans [OF b c]]])
  qed
qed

lemma page_events_late:
  "thr + 1 < c \<Longrightarrow> page_events thr f c ys = map Yield ys"
  by (induction ys arbitrary: c) simp_all

lemma page_events_closed:
  "c \<le> thr + 1 \<Longrightarrow> thr + 1 \<le> c + length ys \<Longrightarrow>
   page_events thr f c ys =
     map Yield (take (thr + 1 - c) ys) @ [f] @ map Yield (drop (thr + 1 - c) ys)"
proof (induction ys arbitrary: c)
  case Nil
  then show ?case by simp
next
  case (Cons y ys)
  show ?case
  proof (cases "c = thr + 1")
    case True
    then show ?thesis by (simp add: page_events_late)
  next
    case False
    then have "Suc c \<le> thr + 1" and "thr + 1 \<le> Suc c + length ys" using Cons.prems by simp_all
    from Cons.IH [OF this] False Cons.prems show ?thesis
      by (simp add: Suc_diff_le)
  qed
qed

lemma page_block_closed:
  assumes "ps k \<noteq> []"
  shows "page_block E ds p ps k = prefetch_block E ds p ps k"
proof -
  have "length (ps k) div 2 + 1 \<le> length (ps k)"
    using assms by (cases "ps k") simp_all
  then show ?thesis
    using page_events_closed [of 0 "length (ps k) div 2" "map (hydrate E ds) (ps k)"
        "fetch_event p ps (Suc k)"]
    by (simp add: page_block_def prefetch_block_def Let_def)
qed

lemma blocks_closed:
  assumes "\<And>j. j < K \<Longrightarrow> ps j \<noteq> []"
  shows "map (page_block E ds p ps) [0..<K] = map (prefetch_block E ds p ps) [0..<K]"
  using assms by (simp add: page_block_closed)

lemma reach_invariant:
  assumes up: "get_url_prefix (self s) = Inr p"
    and w0: "\<And>h. on_get_json W h (elements_url p) None = Inr (JArr (ps 0))"
    and w: "\<And>h j. 0 < j \<Longrightarrow> j \<le> K \<Longrightarrow>
               on_get_json W h (elements_url p) (Some (int j)) = Inr (JArr (ps j))"
    and last_page: "ps K = []"
    and pages: "\<And>j. j < K \<Longrightarrow> ps j \<noteq> []"
  shows "iter_reach E W s v t \<Longrightarrow>
         self t = self s \<and>
         ((\<exists>k done rest. k \<le> K \<and> ps k = done @ rest \<and> v = iter_vars_at ps k (int (length done) - 1))
          \<or> v = iter_vars_at ps K 0)"
proof (induction rule: iter_reach.induct)
  case (start r s')
  then have "r = JArr (ps 0)" and "s' = s\<lparr>events := events s @ [GetJson (elements_url p) None (Inr (JArr (ps 0)))]\<rparr>"
    using up w0 by (auto simp add: prog_defs elements_url_def Let_def)
  then have "self s' = self s"
    and "\<lparr>page = 0, first = r, second = JArr [], new_list_requested = False, iteration = - 1\<rparr> =
         iter_vars_at ps 0 (int (length ([]::json list)) - 1)"
    by (simp_all add: iter_vars_at_def Let_def)
  moreover have "ps 0 = [] @ ps 0" by simp
  ultimately show ?case by (metis le0)
next
  case (pass v t n v' out t')
  then have st: "self t = self s" by simp
  then have upt: "get_url_prefix (self t) = Inr p" using up by simp
  from pass.IH have "(\<exists>k done rest. k \<le> K \<and> ps k = done @ rest \<and> v = iter_vars_at ps k (int (length done) - 1))
          \<or> v = iter_vars_at ps K 0" by simp
  then show ?case
  proof
    assume "v = iter_vars_at ps K 0"
    then show ?thesis using pass.hyps(2,3) last_page by (simp add: py_len_at)
  next
    assume "\<exists>k done rest. k \<le> K \<and> ps k = done @ rest \<and> v = iter_vars_at ps k (int (length done) - 1)"
    then obtain k "done" rest where k: "k \<le> K" and pk: "ps k = done @ rest"
      and v: "v = iter_vars_at ps k (int (length done) - 1)" by blast
    have ne: "ps k \<noteq> []" using pass.hyps(2,3) v by (auto simp add: py_len_at)
    then have lt: "k < K" using k last_page by (cases "k = K") auto
    have w': "\<And>h. on_get_json W h (elements_url p) (Some (int (Suc k))) = Inr (JArr (ps (Suc k)))"
      using w [of "Suc k"] lt by simp
    show ?thesis
    proof (cases rest)
      case Nil
      then have d: "done = ps k" using pk by simp
      have "iter_body E W v t = (Inr (iter_vars_at ps (Suc k) 0, map (hydrate E (self t)) (take 1 (ps (Suc k)))),
            t\<lparr>events := events t @
                 (if length (ps k) \<le> length (ps k) div 2 + 1 then [fetch_event p ps (Suc k)] else []) @
                 map Yield (map (hydrate E (self t)) (take 1 (ps (Suc k))))\<rparr>)"
        using body_step_swap [OF upt w' ne, of E] by (simp add: v d)
      with pass.hyps(4) have v': "v' = iter_vars_at ps (Suc k) 0" and t': "self t' = self t" by auto
      show ?thesis
      proof (cases "ps (Suc k)")
        case Nil
        then have "Suc k = K" using pages [of "Suc k"] lt by (cases "Suc k = K") auto
        then show ?thesis using v' t' st by simp
      next
        case (Cons y ys)
        then have "Suc k \<le> K \<and> ps (Suc k) = [y] @ ys \<and>
                   v' = iter_vars_at ps (Suc k) (int (length [y]) - 1)"
          using v' lt by simp
        then have "\<exists>k done rest. k \<le> K \<and> ps k = done @ rest \<and>
                     v' = iter_vars_at ps k (int (length done) - 1)"
          by (intro exI)
        then show ?thesis using t' st by simp
      qed
    next
      case (Cons x xs)
      then have pk': "ps k = done @ x # xs" using pk by simp
      have "iter_body E W v t = (Inr (iter_vars_at ps k (int (length done)), [hydrate E (self t) x]),
            t\<lparr>events := events t @
                 (if length done = length (ps k) div 2 + 1 then [fetch_event p ps (Suc k)] else []) @
                 [Yield (hydrate E (self t) x)]\<rparr>)"
        using body_step_yield [OF upt w' pk', of E] by (simp add: v)
      with pass.hyps(4) have v': "v' = iter_vars_at ps k (int (length done))" and t': "self t' = self t" by auto
      have "k \<le> K \<and> ps k = (done @ [x]) @ xs \<and>
            v' = iter_vars_at ps k (int (length (done @ [x])) - 1)"
        using pk' v' k by simp
      then have "\<exists>k done rest. k \<le> K \<and> ps k = done @ rest \<and>
                   v' = iter_vars_at ps k (int (length done) - 1)"
        by (intro exI)
      then show ?thesis using t' st by simp
    qed
  qed
qed


text \<open>
  C1. When the remote side serves the pages \<open>ps 0\<close> (requested without a page
  parameter), \<open>ps 1\<close>, \<open>ps 2\<close>, ... and \<open>ps K\<close> is the first empty one, exhausting the
  generator of \<open>__iter__\<close> terminates and yields exactly one element per summary of the
  concatenation of the pages before \<open>K\<close>, in that order; with an empty first page it yields
  nothing. The cached \<open>elements_count\<close> plays no part: any value of it gives the same
  summaries.
\<close>

theorem iter_yields_every_summary_once:
  assumes "get_url_prefix (self s) = Inr p"
    and "\<And>h. on_get_json W h (elements_url p) None = Inr (JArr (ps 0))"
    and "\<And>h j. 0 < j \<Longrightarrow> j \<le> K \<Longrightarrow>
               on_get_json W h (elements_url p) (Some (int j)) = Inr (JArr (ps j))"
    and "ps K = []"
    and "\<And>j. j < K \<Longrightarrow> ps j \<noteq> []"
  shows "map_option fst (iter E W s) =
           Some (Inr (map (hydrate E (self s)) (concat (map ps [0..<K])))) \<and>
         map_option fst (iter E W (s\<lparr>self := (self s)\<lparr>elements_count := c\<rparr>\<rparr>)) =
           Some (Inr (map (hydrate E ((self s)\<lparr>elements_count := c\<rparr>)) (concat (map ps [0..<K]))))"
proof
  show "map_option fst (iter E W s) =
           Some (Inr (map (hydrate E (self s)) (concat (map ps [0..<K]))))"
    using iter_run [OF assms, of E] by simp
next
  have "get_url_prefix (self (s\<lparr>self := (self s)\<lparr>elements_count := c\<rparr>\<rparr>)) = Inr p"
    using assms(1) by (simp add: get_url_prefix_def)
  from iter_run [OF this assms(2-5), of E]
  show "map_option fst (iter E W (s\<lparr>self := (self s)\<lparr>elements_count := c\<rparr>\<rparr>)) =
           Some (Inr (map (hydrate E ((self s)\<lparr>elements_count := c\<rparr>)) (concat (map ps [0..<K]))))"
    by simp
qed

lemma sample_prefix: "get_url_prefix (self (sample_state None)) = Inr (JStr ''me/ds'')"
  by (simp add: sample_defs)

lemma sample_first_page:
  "on_get_json (sample_world ''me/ds'') h (elements_url (JStr ''me/ds'')) None =
     Inr (JArr (sample_pages 0))"
  by (simp add: sample_world_def elements_url_def sample_pages_def)

lemma sample_next_pages:
  "0 < j \<Longrightarrow> j \<le> 2 \<Longrightarrow>
   on_get_json (sample_world ''me/ds'') h (elements_url (JStr ''me/ds'')) (Some (int j)) =
     Inr (JArr (sample_pages j))"
  by (simp add: sample_world_def elements_url_def sample_pages_def)

lemma sample_last_page: "sample_pages 2 = []"
  by (simp add: sample_pages_def sample_page_def)

lemma sample_pages_nonempty: "j < 2 \<Longrightarrow> sample_pages j \<noteq> []"
  by (cases j) (simp_all add: sample_pages_def sample_page_def)

lemma sample_upt: "[0..<2] = [0, Suc 0]"
  by (simp add: upt_rec numeral_2_eq_2)

theorem iter_yields_every_summary_once_witness:
  "map_option fst (iter sample_elements (sample_world ''me/ds'') (sample_state None)) =
     Some (Inr [summary ''a'' ''one'', summary ''b'' ''x,y'', summary ''c'' ''three'',
                summary ''d'' ''four''])"
  using iter_yields_every_summary_once [of "sample_state None" "JStr ''me/ds''"
      "sample_world ''me/ds''" sample_pages 2 sample_elements "JInt 0",
      OF sample_prefix sample_first_page sample_next_pages sample_last_page sample_pages_nonempty]
  by (simp add: sample_upt hydrate_def sample_elements_def sample_pages_def sample_page_def)

text \<open>
  C2. In a full iteration the request for page \<open>k + 1\<close> is issued exactly once, after the
  elements of page \<open>k\<close> up to index \<open>len(page) // 2\<close> have been handed over and before
  the elements after that index are, hence no later than the exhaustion of page \<open>k\<close>; and
  whenever the generator stands at the head of its loop, its two buffers hold page \<open>k\<close> and
  either nothing or page \<open>k + 1\<close>.
\<close>

theorem prefetch_timing:
  assumes "get_url_prefix (self s) = Inr p"
    and "\<And>h. on_get_json W h (elements_url p) None = Inr (JArr (ps 0))"
    and "\<And>h j. 0 < j \<Longrightarrow> j \<le> K \<Longrightarrow>
               on_get_json W h (elements_url p) (Some (int j)) = Inr (JArr (ps j))"
    and "ps K = []"
    and "\<And>j. j < K \<Longrightarrow> ps j \<noteq> []"
  shows "trace_of (iter E W s) =
           events s @ GetJson (elements_url p) None (Inr (JArr (ps 0))) #
             concat (map (prefetch_block E (self s) p ps) [0..<K]) \<and>
         (\<forall>k<K. length (ps k) div 2 + 1 \<le> length (ps k)) \<and>
         (\<forall>v t. iter_reach E W s v t \<longrightarrow>
            (\<exists>k i. k \<le> K \<and> v = iter_vars_at ps k i \<and> first v = JArr (ps k) \<and>
                   (second v = JArr [] \<or> second v = JArr (ps (Suc k)))))"
proof (intro conjI allI impI)
  show "trace_of (iter E W s) =
           events s @ GetJson (elements_url p) None (Inr (JArr (ps 0))) #
             concat (map (prefetch_block E (self s) p ps) [0..<K])"
    using iter_run [OF assms, of E] blocks_closed [of K ps E "self s" p, OF assms(5)]
    by (simp add: trace_of_def)
next
  fix k assume "k < K"
  then have "ps k \<noteq> []" by (rule assms(5))
  then show "length (ps k) div 2 + 1 \<le> length (ps k)" by (cases "ps k") simp_all
next
  fix v t assume "iter_reach E W s v t"
  from reach_invariant [OF assms this]
  have "(\<exists>k done rest. k \<le> K \<and> ps k = done @ rest \<and> v = iter_vars_at ps k (int (length done) - 1))
          \<or> v = iter_vars_at ps K 0" by simp
  then obtain k i where "k \<le> K" and "v = iter_vars_at ps k i" by auto
  then have "k \<le> K \<and> v = iter_vars_at ps k i \<and> first v = JArr (ps k) \<and>
                   (second v = JArr [] \<or> second v = JArr (ps (Suc k)))"
    by (simp add: iter_vars_at_def Let_def)
  then show "\<exists>k i. k \<le> K \<and> v = iter_vars_at ps k i \<and> first v = JArr (ps k) \<and>
                   (second v = JArr [] \<or> second v = JArr (ps (Suc k)))"
    by (intro exI)
qed

theorem prefetch_timing_witness:
  "trace_of (iter sample_elements (sample_world ''me/ds'') (sample_state None)) =
     [GetJson (elements_url (JStr ''me/ds'')) None
        (Inr (JArr [summary ''a'' ''one'', summary ''b'' ''x,y'', summary ''c'' ''three''])),
      Yield (summary ''a'' ''one''), Yield (summary ''b'' ''x,y''),
      GetJson (elements_url (JStr ''me/ds'')) (Some 1) (Inr (JArr [summary ''d'' ''four''])),
      Yield (summary ''c'' ''three''), Yield (summary ''d'' ''four''),
      GetJson (elements_url (JStr ''me/ds'')) (Some 2) (Inr (JArr []))]"
  using prefetch_timing [of "sample_state None" "JStr ''me/ds''"
      "sample_world ''me/ds''" sample_pages 2 sample_elements,
      OF sample_prefix sample_first_page sample_next_pages sample_last_page sample_pages_nonempty]
  by (simp add: sample_upt hydrate_def sample_elements_def sample_pages_def sample_page_def
        prefetch_block_def fetch_event_def Let_def sample_state_def)

subsection \<open>The CSV metadata file\<close>

lemma read_unquoted:
  "\<not> list_ex csv_special f \<Longrightarrow>
   csv_read InUnquoted fld row (f @ rest) = csv_read InUnquoted (fld @ f) row rest"
  by (induction f arbitrary: fld) (simp_all add: csv_special_def)

lemma read_quoted:
  "csv_read InQuoted fld row (csv_escape f @ CHR 0x22 # rest) =
   csv_read QuoteInQuoted (fld @ f) row rest"
  by (induction f arbitrary: fld) (simp_all add: csv_escape_def)

lemma read_field_comma:
  assumes "st = RowStart \<or> st = FieldStart"
  shows "csv_read st [] row (csv_field b f @ CHR '','' # rest) =
         csv_read FieldStart [] (row @ [f]) rest"
proof (cases "list_ex csv_special f \<or> (f = [] \<and> b)")
  case True
  then show ?thesis
    using assms read_quoted [of "[]" row f "CHR '','' # rest"]
    by (auto simp add: csv_field_def)
next
  case False
  then have nq: "\<not> list_ex csv_special f" and cf: "csv_field b f = f"
    by (auto simp add: csv_field_def)
  show ?thesis
  proof (cases f)
    case Nil
    then show ?thesis using assms cf by auto
  next
    case (Cons c cs)
    then have c: "\<not> csv_special c" and cs: "\<not> list_ex csv_special cs" using nq by simp_all
    have "csv_read st [] row ((c # cs) @ CHR '','' # rest) = csv_read InUnquoted [c] row (cs @ CHR '','' # rest)"
      using assms c by (auto simp add: csv_special_def)
    also have "\<dots> = csv_read InUnquoted ([c] @ cs) row (CHR '','' # rest)"
      by (rule read_unquoted [OF cs])
    finally show ?thesis using Cons cf by simp
  qed
qed

lemma read_field_end:
  assumes "st = FieldStart \<or> (st = RowStart \<and> (f \<noteq> [] \<or> b))"
  shows "csv_read st [] row (csv_field b f @ CHR 0x0D # CHR 0x0A # rest) =
         (row @ [f]) # csv_read RowStart [] [] rest"
proof (cases "list_ex csv_special f \<or> (f = [] \<and> b)")
  case True
  then show ?thesis
    using assms read_quoted [of "[]" row f "CHR 0x0D # CHR 0x0A # rest"]
    by (auto simp add: csv_field_def)
next
  case False
  then have nq: "\<not> list_ex csv_special f" and cf: "csv_field b f = f"
    by (auto simp add: csv_field_def)
  show ?thesis
  proof (cases f)
    case Nil
    then show ?thesis using assms cf False by auto
  next
    case (Cons c cs)
    then have c: "\<not> csv_special c" and cs: "\<not> list_ex csv_special cs" using nq by simp_all
    have "csv_read st [] row ((c # cs) @ CHR 0x0D # CHR 0x0A # rest) =
          csv_read InUnquoted [c] row (cs @ CHR 0x0D # CHR 0x0A # rest)"
      using assms c by (auto simp add: csv_special_def)
    also have "\<dots> = csv_read InUnquoted ([c] @ cs) row (CHR 0x0D # CHR 0x0A # rest)"
      by (rule read_unquoted [OF cs])
    finally show ?thesis using Cons cf by simp
  qed
qed

lemma read_fields:
  "fs \<noteq> [] \<Longrightarrow>
   csv_read FieldStart [] row (join '','' (map (csv_field b) fs) @ CHR 0x0D # CHR 0x0A # rest) =
   (row @ fs) # csv_read RowStart [] [] rest"
proof (induction fs arbitrary: row)
  case Nil
  then show ?case by simp
next
  case (Cons f fs)
  show ?case
  proof (cases fs)
    case Nil
    then show ?thesis using read_field_end [of FieldStart f b row rest] by simp
  next
    case (Cons g gs)
    then have "csv_read FieldStart [] row (join '','' (map (csv_field b) (f # fs)) @ CHR 0x0D # CHR 0x0A # rest) =
          csv_read FieldStart [] (row @ [f]) (join '','' (map (csv_field b) fs) @ CHR 0x0D # CHR 0x0A # rest)"
      using read_field_comma [of FieldStart row b f] by simp
    also have "\<dots> = ((row @ [f]) @ fs) # csv_read RowStart [] [] rest"
      using Cons.IH [of "row @ [f]"] Cons by simp
    finally show ?thesis by simp
  qed
qed

lemma read_row:
  assumes "fs \<noteq> []"
  shows "csv_parse (writerow fs @ rest) = fs # csv_parse rest"
proof (cases fs)
  case Nil
  then show ?thesis using assms by simp
next
  case (Cons f gs)
  show ?thesis
  proof (cases gs)
    case Nil
    then show ?thesis
      using Cons read_field_end [of RowStart f True "[]" rest]
      by (simp add: csv_parse_def writerow_def)
  next
    case (Cons g hs)
    have "csv_read RowStart [] [] (join '','' (map (csv_field False) (f # g # hs)) @ CHR 0x0D # CHR 0x0A # rest) =
          csv_read FieldStart [] [f] (join '','' (map (csv_field False) (g # hs)) @ CHR 0x0D # CHR 0x0A # rest)"
      using read_field_comma [of RowStart "[]" False f] by simp
    also have "\<dots> = ([f] @ (g # hs)) # csv_read RowStart [] [] rest"
      by (rule read_fields) simp
    finally show ?thesis
      using Cons \<open>fs = f # gs\<close> by (simp add: csv_parse_def writerow_def)
  qed
qed

lemma read_rows:
  "\<forall>r \<in> set rows. r \<noteq> [] \<Longrightarrow> csv_parse (concat (map writerow rows)) = rows"
proof (induction rows)
  case Nil
  then show ?case by (simp add: csv_parse_def)
next
  case (Cons r rows)
  then show ?case using read_row [of r "concat (map writerow rows)"] by simp
qed


lemma write_records_concat:
  "write_records m = concat (map writerow (map csv_record m))"
  by (induction m) simp_all

lemma csv_text_parse:
  "csv_parse (writerow csv_header @ write_records m) = csv_header # map csv_record m"
proof -
  have "\<forall>r \<in> set (map csv_record m). r \<noteq> []"
    by (auto simp add: csv_record_def)
  then have "csv_parse (write_records m) = map csv_record m"
    unfolding write_records_concat by (rule read_rows)
  moreover have "csv_header \<noteq> []" by (simp add: csv_header_def)
  ultimately show ?thesis using read_row [of csv_header "write_records m"] by simp
qed

lemma update_fresh:
  "k \<notin> fst ` set al \<Longrightarrow> AList.update k v al = al @ [(k, v)]"
  by (induction al) auto

lemma collect_metadata_distinct:
  "distinct (map fst acc @ map (element_id E ext) els) \<Longrightarrow>
   collect_metadata E ext acc els =
     acc @ map (\<lambda>el. (element_id E ext el,
                       \<lparr> m_id = get_id E el, m_title = get_title E el,
                         m_description = get_description E el, m_http_ref = get_ref E el,
                         m_tags = get_tags E el \<rparr>)) els"
proof (induction els arbitrary: acc)
  case Nil
  then show ?case by simp
next
  case (Cons el els)
  then have fresh: "element_id E ext el \<notin> fst ` set acc" by auto
  have "distinct (map fst (acc @ [(element_id E ext el,
                       \<lparr> m_id = get_id E el, m_title = get_title E el,
                         m_description = get_description E el, m_http_ref = get_ref E el,
                         m_tags = get_tags E el \<rparr>)]) @ map (element_id E ext) els)"
    using Cons.prems by auto
  from Cons.IH [OF this] show ?case by (simp add: update_fresh [OF fresh])
qed

lemma element_id_distinct:
  "distinct (map (get_id E) els) \<Longrightarrow> distinct (map (element_id E ext) els)"
  by (cases ext) (simp_all add: element_id_def distinct_map inj_on_def)

lemma getitem_events: "\<exists>rest. events (snd (getitem E W key t)) = events t @ rest"
  by (auto simp add: getitem_def prog_defs Let_def split: sum.splits prod.splits)

lemma fetch_elements_events:
  "\<exists>rest. events (snd (fetch_elements E W cf m t)) = events t @ rest"
proof (induction m arbitrary: t)
  case Nil
  then show ?case by (simp add: ret_def)
next
  case (Cons kv m)
  obtain filename vals where kv: "kv = (filename, vals)" by (cases kv)
  obtain r1 t1 where g: "getitem E W (JStr (m_id vals)) t = (r1, t1)" by (cases "getitem E W (JStr (m_id vals)) t")
  obtain e1 where e1: "events t1 = events t @ e1" using getitem_events [of E W "JStr (m_id vals)" t] g by auto
  show ?case
  proof (cases r1)
    case (Inl e)
    then show ?thesis using g e1 kv by (simp add: bind_p_def)
  next
    case (Inr el)
    let ?t2 = "t1\<lparr>events := events t1 @ [GetContent el False (on_get_content W (events t1) el False)]\<rparr>"
    show ?thesis
    proof (cases "on_get_content W (events t1) el False")
      case (Inl e)
      then show ?thesis using g e1 kv Inr by (simp add: prog_defs Let_def)
    next
      case c: (Inr bc)
      let ?p = "path_join cf filename"
      let ?t3 = "?t2\<lparr>events := events ?t2 @ [WriteFileBytes ?p bc (on_write_file_bytes W (events ?t2) ?p bc)]\<rparr>"
      show ?thesis
      proof (cases "on_write_file_bytes W (events ?t2) ?p bc")
        case (Inl e)
        then show ?thesis using g e1 kv Inr c by (simp add: prog_defs Let_def)
      next
        case w: (Inr u)
        obtain rest where "events (snd (fetch_elements E W cf m ?t3)) = events ?t3 @ rest"
          using Cons.IH [of ?t3] by blast
        then show ?thesis using g e1 kv Inr c w by (simp add: prog_defs Let_def)
      qed
    qed
  qed
qed

text \<open>
  C8. When \<open>save_to_folder\<close> is called with the format \<open>csv\<close> and the iteration
  returns, the next thing it does is write \<open>metadata.csv\<close> in the folder: the header row
  \<open>file_name,id,title,description,http_ref,tags\<close>, then one row per entry of the index in
  index order (one per element, in iteration order, when the identifiers are distinct),
  whose last column is the tags joined by \<open>;\<close>. Reading the written text back by the
  standard quoting rules gives exactly these rows, whatever commas, quotes or line ends
  the fields contain.
\<close>

theorem csv_metadata_file:
  fixes E :: "'e element_api"
  defines "row \<equiv> (\<lambda>kv. case kv of (k, v) \<Rightarrow>
                     [k, m_id v, m_title v, m_description v, m_http_ref v, join '';'' (m_tags v)])"
    and "header \<equiv> [''file_name'', ''id'', ''title'', ''description'', ''http_ref'', ''tags'']"
  assumes it: "iter E W (snd (mkdir W folder s)) = Some (Inr els, s2)"
  shows "\<exists>res rest index text.
           save_to_folder E W folder ''csv'' ext s = Some res \<and>
           index = collect_metadata E (strip_dot ext) [] els \<and>
           text = writerow header @ concat (map writerow (map row index)) \<and>
           events (snd res) =
             events s2 @
             WriteFileText (path_join folder ''metadata.csv'') text
               (on_write_file_text W (events s2) (path_join folder ''metadata.csv'') text) # rest \<and>
           csv_parse text = header # map row index \<and>
           (distinct (map (get_id E) els) \<longrightarrow>
              index = map (\<lambda>el. (element_id E (strip_dot ext) el,
                                  \<lparr> m_id = get_id E el, m_title = get_title E el,
                                    m_description = get_description E el,
                                    m_http_ref = get_ref E el, m_tags = get_tags E el \<rparr>)) els)"
proof -
  let ?index = "collect_metadata E (strip_dot ext) [] els"
  let ?text = "writerow csv_header @ write_records ?index"
  let ?path = "path_join folder ''metadata.csv''"
  let ?r = "on_write_file_text W (events s2) ?path ?text"
  let ?t3 = "s2\<lparr>events := events s2 @ [WriteFileText ?path ?text ?r]\<rparr>"
  have row: "row = csv_record" by (simp add: row_def csv_record_def fun_eq_iff)
  have header: "header = csv_header" by (simp add: header_def csv_header_def)
  have text_eq: "?text = writerow header @ concat (map writerow (map row ?index))"
    by (simp add: row header write_records_concat)
  have parse: "csv_parse ?text = header # map row ?index"
    by (simp add: row header csv_text_parse)
  have dist: "distinct (map (get_id E) els) \<longrightarrow>
              ?index = map (\<lambda>el. (element_id E (strip_dot ext) el,
                                  \<lparr> m_id = get_id E el, m_title = get_title E el,
                                    m_description = get_description E el,
                                    m_http_ref = get_ref E el, m_tags = get_tags E el \<rparr>)) els"
    using collect_metadata_distinct [of "[]" E "strip_dot ext" els] element_id_distinct [of E els "strip_dot ext"]
    by simp
  have "\<exists>res rest. save_to_folder E W folder ''csv'' ext s = Some res \<and>
           events (snd res) = events s2 @ WriteFileText ?path ?text ?r # rest"
  proof (cases ?r)
    case (Inl e)
    then show ?thesis using it
      by (simp add: save_to_folder_def save_csv_def prog_defs Let_def)
  next
    case w: (Inr u)
    let ?cf = "path_join folder ''content''"
    let ?m = "on_mkdir W (events ?t3) ?cf"
    let ?t4 = "?t3\<lparr>events := events ?t3 @ [Mkdir ?cf ?m]\<rparr>"
    obtain rest where f: "events (snd (fetch_elements E W ?cf ?index ?t4)) = events ?t4 @ rest"
      using fetch_elements_events [of E W ?cf ?index ?t4] by blast
    show ?thesis
    proof (cases ?m)
      case (Inr u')
      then show ?thesis using it w f
        by (simp add: save_to_folder_def save_csv_def prog_defs Let_def)
    next
      case (Inl e)
      then show ?thesis using it w f
        by (cases e) (simp_all add: save_to_folder_def save_csv_def prog_defs Let_def)
    qed
  qed
  then show ?thesis using text_eq parse dist by (metis (no_types, lifting))
qed


theorem csv_metadata_file_witness:
  "\<exists>res pre rest text.
     save_to_folder sample_elements (sample_world ''me/ds'') ''out'' ''csv'' (Some ''.txt'')
       (sample_state None) = Some res \<and>
     events (snd res) = pre @ WriteFileText ''out/metadata.csv'' text (Inr ()) # rest \<and>
     csv_parse text =
       [[''file_name'', ''id'', ''title'', ''description'', ''http_ref'', ''tags''],
        [''a.txt'', ''a'', ''one'', ''about'', ''ref'', ''x;y''],
        [''b.txt'', ''b'', ''x,y'', ''about'', ''ref'', ''x;y''],
        [''c.txt'', ''c'', ''three'', ''about'', ''ref'', ''x;y''],
        [''d.txt'', ''d'', ''four'', ''about'', ''ref'', ''x;y'']]"
proof -
  let ?W = "sample_world ''me/ds''"
  let ?s1 = "snd (mkdir ?W ''out'' (sample_state None))"
  let ?els = "[summary ''a'' ''one'', summary ''b'' ''x,y'', summary ''c'' ''three'',
               summary ''d'' ''four'']"
  have up: "get_url_prefix (self ?s1) = Inr (JStr ''me/ds'')"
    by (simp add: prog_defs Let_def sample_prefix)
  have "map (hydrate sample_elements (self ?s1)) (concat (map sample_pages [0..<2])) = ?els"
    by (simp add: sample_upt hydrate_def sample_elements_def sample_pages_def sample_page_def)
  with iter_run [of ?s1 "JStr ''me/ds''" ?W sample_pages 2 sample_elements,
      OF up sample_first_page sample_next_pages sample_last_page sample_pages_nonempty]
  obtain s2 where it: "iter sample_elements ?W ?s1 = Some (Inr ?els, s2)"
    by simp
  from csv_metadata_file [OF it, of "Some ''.txt''"]
  obtain res rest index body where
    run: "save_to_folder sample_elements ?W ''out'' ''csv'' (Some ''.txt'') (sample_state None) = Some res"
    and index: "index = collect_metadata sample_elements (strip_dot (Some ''.txt'')) [] ?els"
    and ev: "events (snd res) =
             events s2 @
             WriteFileText (path_join ''out'' ''metadata.csv'') body
               (on_write_file_text ?W (events s2) (path_join ''out'' ''metadata.csv'') body) # rest"
    and parse: "csv_parse body =
             [''file_name'', ''id'', ''title'', ''description'', ''http_ref'', ''tags''] #
             map (\<lambda>kv. case kv of (k, v) \<Rightarrow>
                     [k, m_id v, m_title v, m_description v, m_http_ref v, join '';'' (m_tags v)]) index"
    by blast
  have "index =
     [(''a.txt'', \<lparr>m_id = ''a'', m_title = ''one'', m_description = ''about'', m_http_ref = ''ref'', m_tags = [''x'', ''y'']\<rparr>),
      (''b.txt'', \<lparr>m_id = ''b'', m_title = ''x,y'', m_description = ''about'', m_http_ref = ''ref'', m_tags = [''x'', ''y'']\<rparr>),
      (''c.txt'', \<lparr>m_id = ''c'', m_title = ''three'', m_description = ''about'', m_http_ref = ''ref'', m_tags = [''x'', ''y'']\<rparr>),
      (''d.txt'', \<lparr>m_id = ''d'', m_title = ''four'', m_description = ''about'', m_http_ref = ''ref'', m_tags = [''x'', ''y'']\<rparr>)]"
    unfolding index by (simp add: sample_defs element_id_def strip_dot_def)
  with parse have p: "csv_parse body =
       [[''file_name'', ''id'', ''title'', ''description'', ''http_ref'', ''tags''],
        [''a.txt'', ''a'', ''one'', ''about'', ''ref'', ''x;y''],
        [''b.txt'', ''b'', ''x,y'', ''about'', ''ref'', ''x;y''],
        [''c.txt'', ''c'', ''three'', ''about'', ''ref'', ''x;y''],
        [''d.txt'', ''d'', ''four'', ''about'', ''ref'', ''x;y'']]"
    by simp
  have "events (snd res) = events s2 @ WriteFileText ''out/metadata.csv'' body (Inr ()) # rest"
    using ev by (simp add: path_join_def sample_world_def)
  with run p show ?thesis by blast
qed

subsection \<open>The extension of the exported files\<close>

lemma files_written_append:
  "files_written (a @ b) = files_written a @ files_written b"
  by (induction a rule: files_written.induct) simp_all

lemma getitem_no_files:
  "\<exists>rest. events (snd (getitem E W key t)) = events t @ rest \<and> files_written rest = []"
  by (auto simp add: getitem_def prog_defs Let_def split: sum.splits prod.splits)

lemma fetch_elements_files:
  "\<exists>rest n. events (snd (fetch_elements E W cf m t)) = events t @ rest \<and>
            files_written rest = map (path_join cf) (take n (map fst m)) \<and>
            (fst (fetch_elements E W cf m t) = Inr () \<longrightarrow> n = length m)"
proof (induction m arbitrary: t)
  case Nil
  have "events (snd (fetch_elements E W cf [] t)) = events t @ [] \<and>
        files_written ([]::'a event list) = map (path_join cf) (take 0 (map fst [])) \<and>
        (fst (fetch_elements E W cf [] t) = Inr () \<longrightarrow> 0 = length ([]::(string \<times> meta) list))"
    by (simp add: ret_def)
  then show ?case by blast
next
  case (Cons kv m)
  obtain filename vals where kv: "kv = (filename, vals)" by (cases kv)
  obtain r1 t1 where g: "getitem E W (JStr (m_id vals)) t = (r1, t1)"
    by (cases "getitem E W (JStr (m_id vals)) t")
  obtain e1 where e1: "events t1 = events t @ e1" and f1: "files_written e1 = []"
    using getitem_no_files [of E W "JStr (m_id vals)" t] g by auto
  show ?case
  proof (cases r1)
    case (Inl e)
    then have "events (snd (fetch_elements E W cf (kv # m) t)) = events t @ e1 \<and>
               files_written e1 = map (path_join cf) (take 0 (map fst (kv # m))) \<and>
               (fst (fetch_elements E W cf (kv # m) t) = Inr () \<longrightarrow> 0 = length (kv # m))"
      using g e1 f1 kv by (simp add: bind_p_def)
    then show ?thesis by blast
  next
    case (Inr el)
    let ?g = "GetContent el False (on_get_content W (events t1) el False)"
    let ?t2 = "t1\<lparr>events := events t1 @ [?g]\<rparr>"
    show ?thesis
    proof (cases "on_get_content W (events t1) el False")
      case (Inl e)
      then have "events (snd (fetch_elements E W cf (kv # m) t)) = events t @ (e1 @ [?g]) \<and>
               files_written (e1 @ [?g]) = map (path_join cf) (take 0 (map fst (kv # m))) \<and>
               (fst (fetch_elements E W cf (kv # m) t) = Inr () \<longrightarrow> 0 = length (kv # m))"
        using g e1 f1 kv Inr by (simp add: prog_defs Let_def files_written_append)
      then show ?thesis by blast
    next
      case c: (Inr bc)
      let ?p = "path_join cf filename"
      let ?w = "WriteFileBytes ?p bc (on_write_file_bytes W (events ?t2) ?p bc)"
      let ?t3 = "?t2\<lparr>events := events ?t2 @ [?w]\<rparr>"
      show ?thesis
      proof (cases "on_write_file_bytes W (events ?t2) ?p bc")
        case (Inl e)
        then have "events (snd (fetch_elements E W cf (kv # m) t)) = events t @ (e1 @ [?g, ?w]) \<and>
               files_written (e1 @ [?g, ?w]) = map (path_join cf) (take 1 (map fst (kv # m))) \<and>
               (fst (fetch_elements E W cf (kv # m) t) = Inr () \<longrightarrow> 1 = length (kv # m))"
          using g e1 f1 kv Inr c by (simp add: prog_defs Let_def files_written_append)
        then show ?thesis by blast
      next
        case w: (Inr u)
        obtain rest n where r: "events (snd (fetch_elements E W cf m ?t3)) = events ?t3 @ rest"
          and fw: "files_written rest = map (path_join cf) (take n (map fst m))"
          and full: "fst (fetch_elements E W cf m ?t3) = Inr () \<longrightarrow> n = length m"
          using Cons.IH [of ?t3] by blast
        have "events (snd (fetch_elements E W cf (kv # m) t)) = events t @ (e1 @ [?g, ?w] @ rest) \<and>
               files_written (e1 @ [?g, ?w] @ rest) = map (path_join cf) (take (Suc n) (map fst (kv # m))) \<and>
               (fst (fetch_elements E W cf (kv # m) t) = Inr () \<longrightarrow> Suc n = length (kv # m))"
          using g e1 f1 kv Inr c w r fw full by (simp add: prog_defs Let_def files_written_append)
        then show ?thesis by blast
      qed
    qed
  qed
qed

lemma collect_metadata_keys:
  "fst ` set (collect_metadata E ext acc els) = fst ` set acc \<union> element_id E ext ` set els"
  by (induction els arbitrary: acc) (auto simp add: dom_update)

lemma export_events:
  assumes it: "iter E W (snd (mkdir W folder s)) = Some (Inr els, s2)"
    and fmt: "metadata_format = ''csv'' \<or> metadata_format = ''json''"
  shows "\<exists>res rest n.
           save_to_folder E W folder metadata_format ext s = Some res \<and>
           events (snd res) =
             events s2 @
             metadata_event W folder metadata_format (collect_metadata E (strip_dot ext) [] els)
               (events s2) # rest \<and>
           files_written rest =
             map (path_join (path_join folder ''content''))
               (take n (map fst (collect_metadata E (strip_dot ext) [] els))) \<and>
           (fst res = Inr () \<longrightarrow> n = length (collect_metadata E (strip_dot ext) [] els))"
proof -
  let ?index = "collect_metadata E (strip_dot ext) [] els"
  let ?ev = "metadata_event W folder metadata_format ?index (events s2)"
  let ?t3 = "s2\<lparr>events := events s2 @ [?ev]\<rparr>"
  let ?cf = "path_join folder ''content''"
  let ?m = "on_mkdir W (events ?t3) ?cf"
  let ?t4 = "?t3\<lparr>events := events ?t3 @ [Mkdir ?cf ?m]\<rparr>"
  let ?wr = "(if metadata_format = ''csv'' then save_csv W folder ?index else save_json W folder ?index) s2"
  have wr: "snd ?wr = ?t3"
    using fmt by (auto simp add: save_csv_def save_json_def prog_defs Let_def metadata_event_def)
  show ?thesis
  proof (cases "fst ?wr")
    case (Inl e)
    then have "save_to_folder E W folder metadata_format ext s = Some (Inl e, ?t3)"
      using it fmt wr
      by (cases ?wr) (auto simp add: save_to_folder_def bind_p_def Let_def)
    then have "save_to_folder E W folder metadata_format ext s = Some (Inl e, ?t3) \<and>
           events (snd (Inl e :: exn + unit, ?t3)) = events s2 @ ?ev # [] \<and>
           files_written ([]::'a event list) = map (path_join ?cf) (take 0 (map fst ?index)) \<and>
           (fst (Inl e :: exn + unit, ?t3) = Inr () \<longrightarrow> 0 = length ?index)"
      by simp
    then show ?thesis by blast
  next
    case w: (Inr u)
    obtain rest n where r: "events (snd (fetch_elements E W ?cf ?index ?t4)) = events ?t4 @ rest"
      and fw: "files_written rest = map (path_join ?cf) (take n (map fst ?index))"
      and full: "fst (fetch_elements E W ?cf ?index ?t4) = Inr () \<longrightarrow> n = length ?index"
      using fetch_elements_files [of E W ?cf ?index ?t4] by blast
    have cont: "save_to_folder E W folder metadata_format ext s =
          Some (bind_p (\<lambda>s. case mkdir W ?cf s of (Inl FileExistsError, s') \<Rightarrow> (Inr (), s') | r \<Rightarrow> r)
                  (\<lambda>_. fetch_elements E W ?cf ?index) ?t3)"
      using it fmt wr w
      by (cases ?wr) (auto simp add: save_to_folder_def bind_p_def Let_def)
    have mk: "mkdir W ?cf ?t3 = (?m, ?t4)" by (simp add: prog_defs Let_def)
    consider (ok) u' where "?m = Inr u'" | (exists) "?m = Inl FileExistsError"
      | (fail) e where "?m = Inl e" and "e \<noteq> FileExistsError"
      by (cases ?m) auto
    then show ?thesis
    proof cases
      case ok
      then have "save_to_folder E W folder metadata_format ext s = Some (fetch_elements E W ?cf ?index ?t4)"
        using cont mk by (simp add: bind_p_def)
      then have "save_to_folder E W folder metadata_format ext s = Some (fetch_elements E W ?cf ?index ?t4) \<and>
           events (snd (fetch_elements E W ?cf ?index ?t4)) = events s2 @ ?ev # (Mkdir ?cf ?m # rest) \<and>
           files_written (Mkdir ?cf ?m # rest) = map (path_join ?cf) (take n (map fst ?index)) \<and>
           (fst (fetch_elements E W ?cf ?index ?t4) = Inr () \<longrightarrow> n = length ?index)"
        using r fw full by simp
      then show ?thesis by blast
    next
      case exists
      then have "save_to_folder E W folder metadata_format ext s = Some (fetch_elements E W ?cf ?index ?t4)"
        using cont mk by (simp add: bind_p_def)
      then have "save_to_folder E W folder metadata_format ext s = Some (fetch_elements E W ?cf ?index ?t4) \<and>
           events (snd (fetch_elements E W ?cf ?index ?t4)) = events s2 @ ?ev # (Mkdir ?cf ?m # rest) \<and>
           files_written (Mkdir ?cf ?m # rest) = map (path_join ?cf) (take n (map fst ?index)) \<and>
           (fst (fetch_elements E W ?cf ?index ?t4) = Inr () \<longrightarrow> n = length ?index)"
        using r fw full by simp
      then show ?thesis by blast
    next
      case fail
      then have "save_to_folder E W folder metadata_format ext s = Some (Inl e, ?t4)"
        using cont mk by (cases e) (simp_all add: bind_p_def)
      then have "save_to_folder E W folder metadata_format ext s = Some (Inl e, ?t4) \<and>
           events (snd (Inl e :: exn + unit, ?t4)) = events s2 @ ?ev # [Mkdir ?cf ?m] \<and>
           files_written [Mkdir ?cf ?m :: 'a event] = map (path_join ?cf) (take 0 (map fst ?index)) \<and>
           (fst (Inl e :: exn + unit, ?t4) = Inr () \<longrightarrow> 0 = length ?index)"
        by simp
      then show ?thesis by blast
    qed
  qed
qed

lemma strip_dot_leading: "strip_dot (Some (CHR ''.'' # e)) = Some e"
  by (simp add: strip_dot_def)

lemma strip_dot_other: "\<not> (e \<noteq> [] \<and> hd e = CHR ''.'') \<Longrightarrow> strip_dot (Some e) = Some e"
  by (auto simp add: strip_dot_def)

text \<open>
  C10 (as amended). A leading dot of \<open>elements_extension\<close> is removed once. With the
  argument \<open>"." + e\<close>, for the formats \<open>csv\<close> and \<open>json\<close> and once the iteration has
  returned, \<open>save_to_folder\<close> writes the metadata index whose keys are
  \<open><element_id>.e\<close> (one per element, in iteration order, when the identifiers are
  distinct) and then writes the content files \<open>content/<element_id>.e\<close> in index order,
  all of them when it returns normally. When \<open>e\<close> does not itself begin with a dot, the
  whole run is the one the argument \<open>e\<close> gives.
\<close>

theorem leading_dot_stripped_once:
  "strip_dot (Some (CHR ''.'' # e)) = Some e \<and>
   element_id E (strip_dot (Some (CHR ''.'' # e))) el = get_id E el @ ''.'' @ e \<and>
   (\<not> (e \<noteq> [] \<and> hd e = CHR ''.'') \<longrightarrow>
      save_to_folder E W folder metadata_format (Some (CHR ''.'' # e)) s =
      save_to_folder E W folder metadata_format (Some e) s) \<and>
   ((metadata_format = ''csv'' \<or> metadata_format = ''json'') \<and>
    iter E W (snd (mkdir W folder s)) = Some (Inr els, s2) \<longrightarrow>
      (\<exists>res rest index n.
         save_to_folder E W folder metadata_format (Some (CHR ''.'' # e)) s = Some res \<and>
         fst ` set index = (\<lambda>el. get_id E el @ ''.'' @ e) ` set els \<and>
         (distinct (map (get_id E) els) \<longrightarrow>
            index = map (\<lambda>el. (get_id E el @ ''.'' @ e,
                               \<lparr> m_id = get_id E el, m_title = get_title E el,
                                 m_description = get_description E el,
                                 m_http_ref = get_ref E el, m_tags = get_tags E el \<rparr>)) els) \<and>
         events (snd res) =
           events s2 @ metadata_event W folder metadata_format index (events s2) # rest \<and>
         files_written rest =
           map (path_join (path_join folder ''content'')) (take n (map fst index)) \<and>
         (fst res = Inr () \<longrightarrow> n = length index)))"
proof (intro conjI impI)
  show "strip_dot (Some (CHR ''.'' # e)) = Some e" by (rule strip_dot_leading)
  show "element_id E (strip_dot (Some (CHR ''.'' # e))) el = get_id E el @ ''.'' @ e"
    by (simp add: strip_dot_leading element_id_def)
next
  assume "\<not> (e \<noteq> [] \<and> hd e = CHR ''.'')"
  then show "save_to_folder E W folder metadata_format (Some (CHR ''.'' # e)) s =
      save_to_folder E W folder metadata_format (Some e) s"
    by (simp add: save_to_folder_def strip_dot_leading strip_dot_other)
next
  assume a: "(metadata_format = ''csv'' \<or> metadata_format = ''json'') \<and>
    iter E W (snd (mkdir W folder s)) = Some (Inr els, s2)"
  let ?index = "collect_metadata E (Some e) [] els"
  have key: "element_id E (Some e) = (\<lambda>el. get_id E el @ ''.'' @ e)"
    by (simp add: element_id_def fun_eq_iff)
  have keys: "fst ` set ?index = (\<lambda>el. get_id E el @ ''.'' @ e) ` set els"
    using collect_metadata_keys [of E "Some e" "[]" els] by (simp add: key)
  have dist: "distinct (map (get_id E) els) \<longrightarrow>
            ?index = map (\<lambda>el. (get_id E el @ ''.'' @ e,
                               \<lparr> m_id = get_id E el, m_title = get_title E el,
                                 m_description = get_description E el,
                                 m_http_ref = get_ref E el, m_tags = get_tags E el \<rparr>)) els"
    using collect_metadata_distinct [of "[]" E "Some e" els] element_id_distinct [of E els "Some e"]
    by (simp add: key)
  from a have it: "iter E W (snd (mkdir W folder s)) = Some (Inr els, s2)"
    and fmt: "metadata_format = ''csv'' \<or> metadata_format = ''json''" by simp_all
  from export_events [OF it fmt, of "Some (CHR ''.'' # e)"]
  obtain res rest n where
    "save_to_folder E W folder metadata_format (Some (CHR ''.'' # e)) s = Some res \<and>
     events (snd res) =
       events s2 @ metadata_event W folder metadata_format ?index (events s2) # rest \<and>
     files_written rest =
       map (path_join (path_join folder ''content'')) (take n (map fst ?index)) \<and>
     (fst res = Inr () \<longrightarrow> n = length ?index)"
    unfolding strip_dot_leading by blast
  with keys dist
  have "save_to_folder E W folder metadata_format (Some (CHR ''.'' # e)) s = Some res \<and>
         fst ` set ?index = (\<lambda>el. get_id E el @ ''.'' @ e) ` set els \<and>
         (distinct (map (get_id E) els) \<longrightarrow>
            ?index = map (\<lambda>el. (get_id E el @ ''.'' @ e,
                               \<lparr> m_id = get_id E el, m_title = get_title E el,
                                 m_description = get_description E el,
                                 m_http_ref = get_ref E el, m_tags = get_tags E el \<rparr>)) els) \<and>
         events (snd res) =
           events s2 @ metadata_event W folder metadata_format ?index (events s2) # rest \<and>
         files_written rest =
           map (path_join (path_join folder ''content'')) (take n (map fst ?index)) \<and>
         (fst res = Inr () \<longrightarrow> n = length ?index)"
    by simp
  then show "\<exists>res rest index n.
         save_to_folder E W folder metadata_format (Some (CHR ''.'' # e)) s = Some res \<and>
         fst ` set index = (\<lambda>el. get_id E el @ ''.'' @ e) ` set els \<and>
         (distinct (map (get_id E) els) \<longrightarrow>
            index = map (\<lambda>el. (get_id E el @ ''.'' @ e,
                               \<lparr> m_id = get_id E el, m_title = get_title E el,
                                 m_description = get_description E el,
                                 m_http_ref = get_ref E el, m_tags = get_tags E el \<rparr>)) els) \<and>
         events (snd res) =
           events s2 @ metadata_event W folder metadata_format index (events s2) # rest \<and>
         files_written rest =
           map (path_join (path_join folder ''content'')) (take n (map fst index)) \<and>
         (fst res = Inr () \<longrightarrow> n = length index)"
    by (intro exI)
qed

lemma sample_export_succeeds:
  "map_option fst (save_to_folder sample_elements (sample_world ''me/ds'') ''out'' ''json''
       (Some ''.txt'') (sample_state None)) = Some (Inr ())"
  by code_simp

theorem leading_dot_stripped_once_witness:
  "\<not> (''txt'' \<noteq> [] \<and> hd ''txt'' = CHR ''.'') \<and>
   strip_dot (Some ''.txt'') = Some ''txt'' \<and>
   save_to_folder sample_elements (sample_world ''me/ds'') ''out'' ''json'' (Some ''.txt'')
     (sample_state None) =
   save_to_folder sample_elements (sample_world ''me/ds'') ''out'' ''json'' (Some ''txt'')
     (sample_state None) \<and>
   (\<exists>res pre rest.
      save_to_folder sample_elements (sample_world ''me/ds'') ''out'' ''json'' (Some ''.txt'')
        (sample_state None) = Some res \<and>
      events (snd res) =
        pre @
        WriteMetadataJson ''out/metadata.json''
          [(''a.txt'', \<lparr>m_id = ''a'', m_title = ''one'', m_description = ''about'',
                        m_http_ref = ''ref'', m_tags = [''x'', ''y'']\<rparr>),
           (''b.txt'', \<lparr>m_id = ''b'', m_title = ''x,y'', m_description = ''about'',
                        m_http_ref = ''ref'', m_tags = [''x'', ''y'']\<rparr>),
           (''c.txt'', \<lparr>m_id = ''c'', m_title = ''three'', m_description = ''about'',
                        m_http_ref = ''ref'', m_tags = [''x'', ''y'']\<rparr>),
           (''d.txt'', \<lparr>m_id = ''d'', m_title = ''four'', m_description = ''about'',
                        m_http_ref = ''ref'', m_tags = [''x'', ''y'']\<rparr>)] (Inr ()) # rest \<and>
      files_written rest =
        [''out/content/a.txt'', ''out/content/b.txt'', ''out/content/c.txt'',
         ''out/content/d.txt''])"
proof -
  let ?W = "sample_world ''me/ds''"
  let ?s1 = "snd (mkdir ?W ''out'' (sample_state None))"
  let ?els = "[summary ''a'' ''one'', summary ''b'' ''x,y'', summary ''c'' ''three'',
               summary ''d'' ''four'']"
  let ?index = "[(''a.txt'', \<lparr>m_id = ''a'', m_title = ''one'', m_description = ''about'',
                        m_http_ref = ''ref'', m_tags = [''x'', ''y'']\<rparr>),
           (''b.txt'', \<lparr>m_id = ''b'', m_title = ''x,y'', m_description = ''about'',
                        m_http_ref = ''ref'', m_tags = [''x'', ''y'']\<rparr>),
           (''c.txt'', \<lparr>m_id = ''c'', m_title = ''three'', m_description = ''about'',
                        m_http_ref = ''ref'', m_tags = [''x'', ''y'']\<rparr>),
           (''d.txt'', \<lparr>m_id = ''d'', m_title = ''four'', m_description = ''about'',
                        m_http_ref = ''ref'', m_tags = [''x'', ''y'']\<rparr>)]"
  have up: "get_url_prefix (self ?s1) = Inr (JStr ''me/ds'')"
    by (simp add: prog_defs Let_def sample_prefix)
  have "map (hydrate sample_elements (self ?s1)) (concat (map sample_pages [0..<2])) = ?els"
    by (simp add: sample_upt hydrate_def sample_elements_def sample_pages_def sample_page_def)
  with iter_run [of ?s1 "JStr ''me/ds''" ?W sample_pages 2 sample_elements,
      OF up sample_first_page sample_next_pages sample_last_page sample_pages_nonempty]
  obtain s2 where it: "iter sample_elements ?W ?s1 = Some (Inr ?els, s2)"
    by simp
  note inst = leading_dot_stripped_once [where e = "''txt''" and E = sample_elements
      and el = "summary ''a'' ''one''" and W = ?W and folder = "''out''"
      and metadata_format = "''json''" and s = "sample_state None" and els = ?els and ?s2.0 = s2]
  have same: "save_to_folder sample_elements ?W ''out'' ''json'' (Some ''.txt'') (sample_state None) =
      save_to_folder sample_elements ?W ''out'' ''json'' (Some ''txt'') (sample_state None)"
    and sd: "strip_dot (Some ''.txt'') = Some ''txt''"
    using inst by simp_all
  have ids: "distinct (map (get_id sample_elements) ?els)"
    by (simp add: sample_defs)
  have hyp: "(''json'' = ''csv'' \<or> ''json'' = ''json'') \<and>
             iter sample_elements ?W ?s1 = Some (Inr ?els, s2)"
    using it by simp
  from mp [OF inst [THEN conjunct2, THEN conjunct2, THEN conjunct2] hyp]
  obtain res rest index n where
    run: "save_to_folder sample_elements ?W ''out'' ''json'' (Some ''.txt'') (sample_state None) = Some res"
    and ix: "distinct (map (get_id sample_elements) ?els) \<longrightarrow>
            index = map (\<lambda>el. (get_id sample_elements el @ ''.'' @ ''txt'',
                               \<lparr> m_id = get_id sample_elements el, m_title = get_title sample_elements el,
                                 m_description = get_description sample_elements el,
                                 m_http_ref = get_ref sample_elements el,
                                 m_tags = get_tags sample_elements el \<rparr>)) ?els"
    and ev: "events (snd res) =
           events s2 @ metadata_event ?W ''out'' ''json'' index (events s2) # rest"
    and fw: "files_written rest =
           map (path_join (path_join ''out'' ''content'')) (take n (map fst index))"
    and full: "fst res = Inr () \<longrightarrow> n = length index"
    by blast
  have index: "index = ?index" using ix ids by (simp add: sample_defs)
  have "fst res = Inr ()" using sample_export_succeeds run by simp
  then have n: "n = 4" using full index by simp
  have e1: "events (snd res) = events s2 @ WriteMetadataJson ''out/metadata.json'' ?index (Inr ()) # rest"
    using ev index by (simp add: metadata_event_def path_join_def sample_world_def)
  have e2: "files_written rest =
        [''out/content/a.txt'', ''out/content/b.txt'', ''out/content/c.txt'', ''out/content/d.txt'']"
    using fw index n by (simp add: path_join_def)
  from run e1 e2 same sd show ?thesis by auto
qed

text \<open>
  The claim as stated fails for an extension that begins with two dots: \<open>"..txt"\<close> and
  \<open>".txt"\<close> (the same string without its leading dot) give different file names.
\<close>

theorem two_leading_dots_differ:
  "files_written (trace_of (save_to_folder sample_elements (sample_world ''me/ds'') ''out'' ''json''
       (Some ''..txt'') (sample_state None))) =
     [''out/content/a..txt'', ''out/content/b..txt'', ''out/content/c..txt'',
      ''out/content/d..txt''] \<and>
   files_written (trace_of (save_to_folder sample_elements (sample_world ''me/ds'') ''out'' ''json''
       (Some ''.txt'') (sample_state None))) =
     [''out/content/a.txt'', ''out/content/b.txt'', ''out/content/c.txt'', ''out/content/d.txt''] \<and>
   metadata_written (trace_of (save_to_folder sample_elements (sample_world ''me/ds'') ''out''
       ''json'' (Some ''..txt'') (sample_state None))) =
     [''a..txt'', ''b..txt'', ''c..txt'', ''d..txt''] \<and>
   metadata_written (trace_of (save_to_folder sample_elements (sample_world ''me/ds'') ''out''
       ''json'' (Some ''.txt'') (sample_state None))) =
     [''a.txt'', ''b.txt'', ''c.txt'', ''d.txt'']"
  by code_simp

end
